theory Spec2Isabelle
  imports Main "HOL-Library.Word" "HOL-Library.Signed_Division"
begin

section \<open>The TLS chunk poller of tls\_poller.go\<close>

text \<open>
  A shallow embedding of \<^verbatim>\<open>src/tls_poller.go\<close>: the constants, the address and key
  canonicalizer (\<^verbatim>\<open>buildTlsKey\<close>, \<^verbatim>\<open>buildTcpId\<close>), the eviction callback, the
  constructor, the ingestion loop (\<^verbatim>\<open>pollChunksPerfBuffer\<close>) and the demultiplexer
  (\<^verbatim>\<open>poll\<close>, \<^verbatim>\<open>handleTlsChunk\<close>). Go objects reached through pointers live in an
  explicit heap, channels are the sequences of values received from them, and the log
  is a list of entries.
\<close>

subsection \<open>Constants\<close>

definition fdCachedItemAvgSize :: int where
  "fdCachedItemAvgSize = 40"

text \<open>Go evaluates the constant expression \<^verbatim>\<open>500000 / fdCachedItemAvgSize\<close> as an integer
  division of two non-negative constants.\<close>

definition fdCacheMaxItems :: int where
  "fdCacheMaxItems = 500000 div fdCachedItemAvgSize"

subsection \<open>Formatting\<close>

text \<open>The decimal rendering of an unsigned integer, as \<^verbatim>\<open>%d\<close> of \<^verbatim>\<open>fmt.Sprintf\<close> and
  \<^verbatim>\<open>strconv.FormatUint(_, 10)\<close> produce it.\<close>

definition digit :: "nat \<Rightarrow> char" where
  "digit d = ''0123456789'' ! d"

fun FormatUint :: "nat \<Rightarrow> string" where
  "FormatUint n = (if n < 10 then [digit n] else FormatUint (n div 10) @ [digit (n mod 10)])"

declare FormatUint.simps [simp del]

text \<open>The same for a signed integer.\<close>

definition FormatInt :: "int \<Rightarrow> string" where
  "FormatInt i = (if i < 0 then ''-'' @ FormatUint (nat (- i)) else FormatUint (nat i))"

type_synonym byte = "8 word"

text \<open>Modelled from the spec: the declaration of \<^verbatim>\<open>addressPair\<close> is not part of the file.
  The spec describes it as the parsed source and destination IP and port of the chunk's
  quad, whose addresses are 32-bit values, so an IP is four octets and its \<^verbatim>\<open>String()\<close>
  (also what \<^verbatim>\<open>%s\<close> prints) is the dotted decimal form.\<close>

datatype IP = IPv4 byte byte byte byte

text \<open>Modelled from the spec: the \<^verbatim>\<open>String()\<close> of an IP address, its dotted decimal
  form.\<close>

fun IP_String :: "IP \<Rightarrow> string" where
  "IP_String (IPv4 a b c d) =
     FormatUint (unat a) @ ''.'' @ FormatUint (unat b) @ ''.'' @
     FormatUint (unat c) @ ''.'' @ FormatUint (unat d)"

text \<open>Modelled from the spec: \<^verbatim>\<open>addressPair\<close>, with the fields the file reads.\<close>

record addressPair =
  srcIp :: IP
  srcPort :: "16 word"
  dstIp :: IP
  dstPort :: "16 word"

subsection \<open>Address and key canonicalizer\<close>

definition buildTlsKey :: "addressPair \<Rightarrow> bool \<Rightarrow> string" where
  "buildTlsKey address isRequest =
     (if isRequest then
        IP_String (srcIp address) @ '':'' @ FormatUint (unat (srcPort address)) @ ''>'' @
        IP_String (dstIp address) @ '':'' @ FormatUint (unat (dstPort address))
      else
        IP_String (dstIp address) @ '':'' @ FormatUint (unat (dstPort address)) @ ''>'' @
        IP_String (srcIp address) @ '':'' @ FormatUint (unat (srcPort address)))"

record TcpID =
  SrcIP :: string
  DstIP :: string
  SrcPort :: string
  DstPort :: string

definition buildTcpId :: "addressPair \<Rightarrow> bool \<Rightarrow> TcpID" where
  "buildTcpId address isRequest =
     (if isRequest then
        \<lparr>SrcIP = IP_String (srcIp address),
         DstIP = IP_String (dstIp address),
         SrcPort = FormatUint (unat (srcPort address)),
         DstPort = FormatUint (unat (dstPort address))\<rparr>
      else
        \<lparr>SrcIP = IP_String (dstIp address),
         DstIP = IP_String (srcIp address),
         SrcPort = FormatUint (unat (dstPort address)),
         DstPort = FormatUint (unat (srcPort address))\<rparr>)"

text \<open>The logical reverse of a quad, in the spec's sense: source and destination exchanged.\<close>

definition reverse_quad :: "addressPair \<Rightarrow> addressPair" where
  "reverse_quad address =
     \<lparr>srcIp = dstIp address, srcPort = dstPort address,
      dstIp = srcIp address, dstPort = srcPort address\<rparr>"

subsection \<open>Chunks and their binary decoding\<close>

text \<open>The record type generated by bpf2go. \<^verbatim>\<open>Data\<close> is an array of 4096 bytes.\<close>

record tracerAddressInfo =
  Saddr :: "32 word"
  Daddr :: "32 word"
  Sport :: "16 word"
  Dport :: "16 word"

record tracerTlsChunk =
  Pid :: "32 word"
  Tgid :: "32 word"
  Len :: "32 word"
  Start :: "32 word"
  Recorded :: "32 word"
  Fd :: "32 word"
  Flags :: "32 word"
  AddressInfo :: tracerAddressInfo
  Data :: "byte list"

datatype go_error =
    ErrClosed
  | EOF
  | ErrUnexpectedEOF
  | ErrOther string
  | Wrapped string go_error

text \<open>\<^verbatim>\<open>errors.Is(err, perf.ErrClosed)\<close>: the error itself or one it wraps.\<close>

fun is_ErrClosed :: "go_error \<Rightarrow> bool" where
  "is_ErrClosed ErrClosed = True"
| "is_ErrClosed (Wrapped _ e) = is_ErrClosed e"
| "is_ErrClosed _ = False"

fun le_bytes :: "byte list \<Rightarrow> nat" where
  "le_bytes [] = 0"
| "le_bytes (b # bs) = unat b + 256 * le_bytes bs"

definition field :: "nat \<Rightarrow> nat \<Rightarrow> byte list \<Rightarrow> byte list" where
  "field off n bs = take n (drop off bs)"

definition chunkSize :: nat where
  "chunkSize = 7 * 4 + (4 + 4 + 2 + 2) + 4096"

text \<open>\<^verbatim>\<open>binary.Read(bytes.NewReader(raw), binary.LittleEndian, &chunk)\<close>: the fixed size of
  the struct is read in full from the buffer (end of file when it is empty, unexpected end
  of file when it is short), then the fields are taken in order, least significant byte
  first.\<close>

definition binary_Read :: "byte list \<Rightarrow> go_error + tracerTlsChunk" where
  "binary_Read raw =
     (if raw = [] then Inl EOF
      else if length raw < chunkSize then Inl ErrUnexpectedEOF
      else Inr
        \<lparr>Pid = of_nat (le_bytes (field 0 4 raw)),
         Tgid = of_nat (le_bytes (field 4 4 raw)),
         Len = of_nat (le_bytes (field 8 4 raw)),
         Start = of_nat (le_bytes (field 12 4 raw)),
         Recorded = of_nat (le_bytes (field 16 4 raw)),
         Fd = of_nat (le_bytes (field 20 4 raw)),
         Flags = of_nat (le_bytes (field 24 4 raw)),
         AddressInfo =
           \<lparr>Saddr = of_nat (le_bytes (field 28 4 raw)),
            Daddr = of_nat (le_bytes (field 32 4 raw)),
            Sport = of_nat (le_bytes (field 36 2 raw)),
            Dport = of_nat (le_bytes (field 38 2 raw))\<rparr>,
         Data = field 40 4096 raw\<rparr>)"

subsection \<open>The log\<close>

text \<open>A log line is an informational message, or an error: the text in front of the
  error value and the error value printed by \<^verbatim>\<open>%v\<close>.\<close>

datatype log_entry =
    LogInfo string
  | LogError string go_error

subsection \<open>The ingestion task\<close>

text \<open>What one call of \<^verbatim>\<open>p.chunksReader.Read()\<close> returns: a record with its count of
  lost samples and its raw sample, or an error.\<close>

datatype read_result =
    ReadRecord "64 word" "byte list"
  | ReadError go_error

text \<open>The effects of the task: the chunks sent on the handoff channel, in order, whether
  the channel has been closed, and the lines logged.\<close>

record ingestion =
  sent :: "tracerTlsChunk list"
  chunks_closed :: bool
  ilog :: "log_entry list"

text \<open>How far a loop got on the input it was given: it returned, it is waiting for more
  input (a blocking read or receive that nothing answers), or it panicked.\<close>

datatype 'a run = Returned 'a | Blocked 'a | Panicked

text \<open>The \<^verbatim>\<open>for\<close> loop of \<^verbatim>\<open>pollChunksPerfBuffer\<close>, over the results of the successive
  reads.\<close>

fun pollChunksLoop :: "read_result list \<Rightarrow> ingestion \<Rightarrow> ingestion run" where
  "pollChunksLoop [] st = Blocked st"
| "pollChunksLoop (ReadError err # rs) st =
     (let st1 = st\<lparr>chunks_closed := True\<rparr> in
      if is_ErrClosed err then Returned st1
      else Returned (st1\<lparr>ilog := ilog st1 @
             [LogError ''Error reading chunks from tls perf, aborting TLS! '' err]\<rparr>))"
| "pollChunksLoop (ReadRecord lost raw # rs) st =
     (if lost \<noteq> 0 then
        pollChunksLoop rs (st\<lparr>ilog := ilog st @
          [LogInfo (''Buffer is full, dropped '' @ FormatUint (unat lost) @ '' chunks'')]\<rparr>)
      else
        (case binary_Read raw of
           Inl err \<Rightarrow>
             pollChunksLoop rs (st\<lparr>ilog := ilog st @ [LogError ''Error parsing chunk '' err]\<rparr>)
         | Inr chunk \<Rightarrow>
             pollChunksLoop rs (st\<lparr>sent := sent st @ [chunk]\<rparr>)))"

definition pollChunksPerfBuffer :: "read_result list \<Rightarrow> ingestion run" where
  "pollChunksPerfBuffer rs =
     pollChunksLoop rs
       \<lparr>sent = [], chunks_closed = False, ilog = [LogInfo ''Start polling for tls events'']\<rparr>"

subsection \<open>The bounded correlation cache\<close>

text \<open>Modelled from the spec: the cache type \<^verbatim>\<open>simplelru.LRU\<close>, its constructor
  \<^verbatim>\<open>NewLRU\<close> and its insertion are not part of the file. Following section 4.3 of
  the spec, the capacity is fixed at construction, construction fails when the capacity is
  not positive, an insertion beyond the capacity evicts the least recently used entry, and
  an insertion makes its entry the most recently used. The entries are kept
  most recently used first; the comment on the field gives the key and value types.\<close>

record LRU =
  lru_size :: int
  lru_items :: "(string \<times> addressPair) list"

text \<open>Modelled from the spec: \<^verbatim>\<open>simplelru.NewLRU\<close>, which fails with a configuration
  error when the capacity is not positive. The callback it is given is the poller's, called
  in \<open>fdCache_Add\<close> below.\<close>

definition NewLRU :: "int \<Rightarrow> go_error + LRU" where
  "NewLRU capacity =
     (if capacity \<le> 0 then Inl (ErrOther ''must provide a positive size'')
      else Inr \<lparr>lru_size = capacity, lru_items = []\<rparr>)"

text \<open>Modelled from the spec: \<^verbatim>\<open>insert(key, value)\<close>, which returns the cache and the
  entry it evicted, if any, for the eviction callback.\<close>

definition LRU_Add ::
  "string \<Rightarrow> addressPair \<Rightarrow> LRU \<Rightarrow> LRU \<times> (string \<times> addressPair) option" where
  "LRU_Add k v c =
     (if k \<in> fst ` set (lru_items c) then
        (c\<lparr>lru_items := (k, v) # filter (\<lambda>e. fst e \<noteq> k) (lru_items c)\<rparr>, None)
      else
        (let items = (k, v) # lru_items c in
         if int (length items) > lru_size c then
           (c\<lparr>lru_items := butlast items\<rparr>, Some (last items))
         else (c\<lparr>lru_items := items\<rparr>, None)))"

subsection \<open>Streams, the poller and the shared stream table\<close>

text \<open>Modelled from the spec: \<^verbatim>\<open>tlsReader\<close> is not part of the file. A reassembly
  context is constructed from a connection identity, its owning stream and a role flag, and
  ingests chunks one at a time. A stream is a heap object: its address is its index in the
  heap.\<close>

record tlsReader =
  tcpID :: TcpID
  parent :: nat
  isClient :: bool
  ingested :: "tracerTlsChunk list"

text \<open>Modelled from the spec: \<^verbatim>\<open>tlsStream\<close>, with its key, its identity (\<^verbatim>\<open>setId\<close>,
  \<^verbatim>\<open>getId\<close>) and its two readers, \<^verbatim>\<open>nil\<close> until they are assigned.\<close>

record tlsStream =
  stream_key :: string
  stream_id :: int
  client :: "tlsReader option"
  server :: "tlsReader option"

text \<open>Modelled from the spec: \<^verbatim>\<open>NewTlsReader(tcpID, stream, isClient)\<close>.\<close>

definition NewTlsReader :: "TcpID \<Rightarrow> nat \<Rightarrow> bool \<Rightarrow> tlsReader" where
  "NewTlsReader tcpId stream isCl =
     \<lparr>tcpID = tcpId, parent = stream, isClient = isCl, ingested = []\<rparr>"

text \<open>Modelled from the spec: \<^verbatim>\<open>NewTlsStream(p, key)\<close>.\<close>

definition NewTlsStream :: "string \<Rightarrow> tlsStream" where
  "NewTlsStream key = \<lparr>stream_key = key, stream_id = 0, client = None, server = None\<rparr>"

text \<open>Modelled from the spec: \<^verbatim>\<open>chunk.getReader(stream)\<close>, the client context for a
  request-side chunk and the server context otherwise.\<close>

definition getReader :: "bool \<Rightarrow> tlsStream \<Rightarrow> tlsReader option" where
  "getReader isReq stream = (if isReq then client stream else server stream)"

text \<open>Modelled from the spec: \<^verbatim>\<open>reader.newChunk(chunk)\<close>, the ingestion of one chunk by
  a reassembly context.\<close>

definition newChunk :: "tlsReader \<Rightarrow> tracerTlsChunk \<Rightarrow> tlsReader" where
  "newChunk reader chunk = reader\<lparr>ingested := ingested reader @ [chunk]\<rparr>"

text \<open>The fields of \<^verbatim>\<open>tlsPoller\<close> that hold data. The two channels are the sequences of
  values received from them, the reader is the sequence of its results, and the tracer and
  the sorter are not used by the functions modelled (the tracer is an opaque handle).
  \<^verbatim>\<open>evictedCounter\<close> is a Go \<^verbatim>\<open>int\<close>, 64 bits wide on amd64.\<close>

record tlsPoller =
  tls :: nat
  streams :: "string \<rightharpoonup> nat"
  procfs :: string
  fdCache :: "LRU option"
  evictedCounter :: "64 word"

text \<open>Modelled from the spec: \<^verbatim>\<open>TcpStreamMap\<close> is not part of the file. It is the
  allocator's last identity (\<open>streamId\<close>) and the shared table (\<open>table\<close>); they are kept
  in one state with the poller, the heap of streams and the log.\<close>

record world = tlsPoller +
  heap :: "tlsStream list"
  streamId :: int
  table :: "int \<rightharpoonup> nat"
  log :: "log_entry list"

text \<open>Modelled from the spec: \<^verbatim>\<open>NextId()\<close>, which hands out monotonically increasing,
  globally unique integers.\<close>

definition NextId :: "world \<Rightarrow> int \<times> world" where
  "NextId w = (streamId w + 1, w\<lparr>streamId := streamId w + 1\<rparr>)"

text \<open>Modelled from the spec: \<^verbatim>\<open>Store(id, stream)\<close>, which registers a stream under
  an identity in the shared table.\<close>

definition Store :: "int \<Rightarrow> nat \<Rightarrow> world \<Rightarrow> world" where
  "Store i stream w = w\<lparr>table := (table w)(i \<mapsto> stream)\<rparr>"

subsection \<open>Eviction callback and constructor\<close>

text \<open>Go's \<^verbatim>\<open>%\<close> on the signed counter truncates towards zero.\<close>

definition fdCacheEvictCallback :: "string \<Rightarrow> addressPair \<Rightarrow> world \<Rightarrow> world" where
  "fdCacheEvictCallback key val w =
     (let w1 = w\<lparr>evictedCounter := evictedCounter w + 1\<rparr> in
      if sint (evictedCounter w1) smod 1000000 = 0 then
        w1\<lparr>log := log w1 @
          [LogInfo (''Tls fdCache evicted '' @ FormatInt (sint (evictedCounter w1)) @
                    '' items'')]\<rparr>
      else w1)"

text \<open>Modelled from the spec: an insertion into the poller's cache, which the file does
  not contain. The cache calls the callback it was constructed with on the entry it
  evicts.\<close>

definition fdCache_Add :: "string \<Rightarrow> addressPair \<Rightarrow> world \<Rightarrow> world option" where
  "fdCache_Add k v w =
     (case fdCache w of
        None \<Rightarrow> None
      | Some c \<Rightarrow>
          (let (c', evicted) = LRU_Add k v c;
               w1 = w\<lparr>fdCache := Some c'\<rparr>
           in case evicted of
                None \<Rightarrow> Some w1
              | Some (ek, ev) \<Rightarrow> Some (fdCacheEvictCallback ek ev w1)))"

definition newTlsPoller :: "nat \<Rightarrow> string \<Rightarrow> go_error + tlsPoller" where
  "newTlsPoller tracer procfs_path =
     (let poller = \<lparr>tls = tracer, streams = Map.empty, procfs = procfs_path, fdCache = None,
                     evictedCounter = 0\<rparr>
      in case NewLRU fdCacheMaxItems of
           Inl err \<Rightarrow> Inl (Wrapped [] err)
         | Inr c \<Rightarrow> Inr (poller\<lparr>fdCache := Some c\<rparr>))"

subsection \<open>The stream demultiplexer\<close>

text \<open>The methods \<^verbatim>\<open>getAddressPair\<close> and \<^verbatim>\<open>isRequest\<close> of a chunk are not part of the
  file and the spec does not say how they read the chunk: they are parameters of the
  functions that call them.\<close>

type_synonym chunk_address = "tracerTlsChunk \<Rightarrow> addressPair"
type_synonym chunk_direction = "tracerTlsChunk \<Rightarrow> bool"

text \<open>The block of \<^verbatim>\<open>handleTlsChunk\<close> run when the key has no stream, statement by
  statement; it yields the address of the new stream.\<close>

definition createStream :: "addressPair \<Rightarrow> string \<Rightarrow> world \<Rightarrow> nat \<times> world" where
  "createStream address key w =
     (let stream = length (heap w);
          w1 = w\<lparr>heap := heap w @ [NewTlsStream key]\<rparr>;
          (i, w2) = NextId w1;
          w3 = w2\<lparr>heap := (heap w2)[stream := (heap w2 ! stream)\<lparr>stream_id := i\<rparr>]\<rparr>;
          w4 = Store (stream_id (heap w3 ! stream)) stream w3;
          w5 = w4\<lparr>streams := (streams w4)(key \<mapsto> stream)\<rparr>;
          w6 = w5\<lparr>heap := (heap w5)[stream := (heap w5 ! stream)
                  \<lparr>client := Some (NewTlsReader (buildTcpId address True) stream True)\<rparr>]\<rparr>;
          w7 = w6\<lparr>heap := (heap w6)[stream := (heap w6 ! stream)
                  \<lparr>server := Some (NewTlsReader (buildTcpId address False) stream False)\<rparr>]\<rparr>
      in (stream, w7))"

text \<open>The reader's \<^verbatim>\<open>newChunk\<close> changes the reader in place: the stream that owns it is
  updated.\<close>

definition setReader :: "bool \<Rightarrow> tlsReader \<Rightarrow> tlsStream \<Rightarrow> tlsStream" where
  "setReader isReq reader stream =
     (if isReq then stream\<lparr>client := Some reader\<rparr> else stream\<lparr>server := Some reader\<rparr>)"

text \<open>\<^verbatim>\<open>handleTlsChunk\<close> yields the error it returns (\<open>None\<close> for \<^verbatim>\<open>nil\<close>) and the new
  state, or nothing when it panics: on a stream that is not in the heap, or on a reader
  that is \<^verbatim>\<open>nil\<close>.\<close>

definition handleTlsChunk ::
  "chunk_address \<Rightarrow> chunk_direction \<Rightarrow> tracerTlsChunk \<Rightarrow> world \<Rightarrow>
     (go_error option \<times> world) option" where
  "handleTlsChunk getAddressPair isRequest chunk w =
     (let address = getAddressPair chunk;
          key = buildTlsKey address (isRequest chunk);
          (stream, w') = (case streams w key of
                            Some a \<Rightarrow> (a, w)
                          | None \<Rightarrow> createStream address key w)
      in if stream < length (heap w') then
           (case getReader (isRequest chunk) (heap w' ! stream) of
              None \<Rightarrow> None
            | Some reader \<Rightarrow>
                Some (None, w'\<lparr>heap := (heap w')[stream :=
                  setReader (isRequest chunk) (newChunk reader chunk) (heap w' ! stream)]\<rparr>))
         else None)"

text \<open>What one \<^verbatim>\<open>select\<close> of \<^verbatim>\<open>poll\<close> receives: a chunk from the handoff channel, the
  closing of that channel, or a key from \<^verbatim>\<open>closeStreams\<close>. The order in which the two
  channels are served is the order of the list.\<close>

datatype poll_event =
    ChunkReceived tracerTlsChunk
  | ChunksClosed
  | CloseStream string

text \<open>The \<^verbatim>\<open>for\<close> loop of \<^verbatim>\<open>poll\<close>; \<^verbatim>\<open>LogError(err)\<close> logs the error as it is.\<close>

fun poll ::
  "chunk_address \<Rightarrow> chunk_direction \<Rightarrow> poll_event list \<Rightarrow> world \<Rightarrow> world run" where
  "poll getAddressPair isRequest [] w = Blocked w"
| "poll getAddressPair isRequest (ChunksClosed # es) w = Returned w"
| "poll getAddressPair isRequest (ChunkReceived chunk # es) w =
     (case handleTlsChunk getAddressPair isRequest chunk w of
        None \<Rightarrow> Panicked
      | Some (Some err, w') \<Rightarrow> poll getAddressPair isRequest es (w'\<lparr>log := log w' @ [LogError [] err]\<rparr>)
      | Some (None, w') \<Rightarrow> poll getAddressPair isRequest es w')"
| "poll getAddressPair isRequest (CloseStream key # es) w =
     poll getAddressPair isRequest es (w\<lparr>streams := (streams w)(key := None)\<rparr>)"

subsection \<open>Notions used to state the properties\<close>

text \<open>The flow key a chunk maps to.\<close>

definition chunk_key :: "chunk_address \<Rightarrow> chunk_direction \<Rightarrow> tracerTlsChunk \<Rightarrow> string" where
  "chunk_key getAddressPair isRequest chunk =
     buildTlsKey (getAddressPair chunk) (isRequest chunk)"

text \<open>The chunks among the events of the demultiplexer, in order.\<close>

fun received_chunks :: "poll_event list \<Rightarrow> tracerTlsChunk list" where
  "received_chunks [] = []"
| "received_chunks (ChunkReceived c # es) = c # received_chunks es"
| "received_chunks (_ # es) = received_chunks es"

text \<open>The state a poller starts in: the poller just constructed, no stream allocated, no
  identity handed out, an empty shared table and an empty log.\<close>

definition new_world :: "tlsPoller \<Rightarrow> world" where
  "new_world p =
     \<lparr>tls = tls p, streams = streams p, procfs = procfs p, fdCache = fdCache p,
      evictedCounter = evictedCounter p,
      heap = [], streamId = 0, table = Map.empty, log = []\<rparr>"

text \<open>What Go's pointers guarantee, and what the creation block establishes: every stream
  of the registry is in the heap, was created for the key it is registered under, and has
  both its readers.\<close>

definition registry_ok :: "world \<Rightarrow> bool" where
  "registry_ok w \<longleftrightarrow>
     (\<forall>key a. streams w key = Some a \<longrightarrow>
        a < length (heap w) \<and> stream_key (heap w ! a) = key \<and>
        client (heap w ! a) \<noteq> None \<and> server (heap w ! a) \<noteq> None)"

text \<open>The identities of the streams ever created for a key, in the order of creation.\<close>

definition ids_of_key :: "string \<Rightarrow> world \<Rightarrow> int list" where
  "ids_of_key key w = map stream_id (filter (\<lambda>st. stream_key st = key) (heap w))"

text \<open>The chunks a stream's client-side (\<open>True\<close>) or server-side (\<open>False\<close>) reader has
  ingested.\<close>

definition routed :: "bool \<Rightarrow> tlsStream \<Rightarrow> tracerTlsChunk list" where
  "routed side stream = (case getReader side stream of None \<Rightarrow> [] | Some r \<Rightarrow> ingested r)"

text \<open>Every identity held by a stream has been handed out by the allocator.\<close>

definition ids_allocated :: "world \<Rightarrow> bool" where
  "ids_allocated w \<longleftrightarrow> list_all (\<lambda>st. stream_id st \<le> streamId w) (heap w)"

text \<open>What the demultiplexer receives from the handoff channel, given the effects of the
  ingestion task: the chunks sent, then the closing of the channel.\<close>

definition handoff_events :: "ingestion \<Rightarrow> poll_event list" where
  "handoff_events st =
     map ChunkReceived (sent st) @ (if chunks_closed st then [ChunksClosed] else [])"

fun is_handoff :: "poll_event \<Rightarrow> bool" where
  "is_handoff (CloseStream _) = False"
| "is_handoff _ = True"

fun is_ReadError :: "read_result \<Rightarrow> bool" where
  "is_ReadError (ReadError _) = True"
| "is_ReadError _ = False"

text \<open>The chunk a record yields, if any: none when samples were lost or when the sample
  does not decode.\<close>

fun chunk_of_record :: "read_result \<Rightarrow> tracerTlsChunk option" where
  "chunk_of_record (ReadError _) = None"
| "chunk_of_record (ReadRecord lost raw) =
     (if lost \<noteq> 0 then None
      else case binary_Read raw of Inl _ \<Rightarrow> None | Inr chunk \<Rightarrow> Some chunk)"

text \<open>The line a record makes the ingestion task log, if any.\<close>

fun log_of_record :: "read_result \<Rightarrow> log_entry list" where
  "log_of_record (ReadError _) = []"
| "log_of_record (ReadRecord lost raw) =
     (if lost \<noteq> 0 then
        [LogInfo (''Buffer is full, dropped '' @ FormatUint (unat lost) @ '' chunks'')]
      else case binary_Read raw of
             Inl err \<Rightarrow> [LogError ''Error parsing chunk '' err]
           | Inr _ \<Rightarrow> [])"

text \<open>Two states of the ingestion task with the same effects on the handoff channel.\<close>

definition same_handoff :: "ingestion \<Rightarrow> ingestion \<Rightarrow> bool" where
  "same_handoff st st' \<longleftrightarrow> sent st = sent st' \<and> chunks_closed st = chunks_closed st'"

text \<open>A sequence of insertions into the poller's cache.\<close>

fun fdCache_AddAll :: "(string \<times> addressPair) list \<Rightarrow> world \<Rightarrow> world option" where
  "fdCache_AddAll [] w = Some w"
| "fdCache_AddAll ((k, v) # kvs) w =
     (case fdCache_Add k v w of None \<Rightarrow> None | Some w' \<Rightarrow> fdCache_AddAll kvs w')"

text \<open>The cache of a poller, with capacity 0 and no entry when the field is \<^verbatim>\<open>nil\<close>.\<close>

definition cache_of :: "world \<Rightarrow> LRU" where
  "cache_of w = (case fdCache w of None \<Rightarrow> \<lparr>lru_size = 0, lru_items = []\<rparr> | Some c \<Rightarrow> c)"

text \<open>The stream the creation block of \<^verbatim>\<open>handleTlsChunk\<close> has built when it ends.\<close>

definition fresh_stream :: "addressPair \<Rightarrow> string \<Rightarrow> world \<Rightarrow> tlsStream" where
  "fresh_stream address key w =
     \<lparr>stream_key = key, stream_id = streamId w + 1,
      client = Some (NewTlsReader (buildTcpId address True) (length (heap w)) True),
      server = Some (NewTlsReader (buildTcpId address False) (length (heap w)) False)\<rparr>"

text \<open>The state a loop is in, and whether it has returned.\<close>

fun run_state :: "'a run \<Rightarrow> 'a option" where
  "run_state (Returned a) = Some a"
| "run_state (Blocked a) = Some a"
| "run_state Panicked = None"

fun has_returned :: "'a run \<Rightarrow> bool" where
  "has_returned (Returned _) = True"
| "has_returned _ = False"

text \<open>The quad of the spec's scenario: source 10.0.0.1:5000, destination 10.0.0.2:443.\<close>

abbreviation scenario_quad :: addressPair where
  "scenario_quad \<equiv>
     \<lparr>srcIp = IPv4 10 0 0 1, srcPort = 5000, dstIp = IPv4 10 0 0 2, dstPort = 443\<rparr>"

text \<open>A chunk and a poller to run the functions on.\<close>

abbreviation sample_chunk :: tracerTlsChunk where
  "sample_chunk \<equiv>
     \<lparr>Pid = 1, Tgid = 1, Len = 0, Start = 0, Recorded = 0, Fd = 3, Flags = 0,
      AddressInfo = \<lparr>Saddr = 0, Daddr = 0, Sport = 0, Dport = 0\<rparr>, Data = []\<rparr>"

abbreviation sample_poller :: tlsPoller where
  "sample_poller \<equiv>
     \<lparr>tls = 0, streams = Map.empty, procfs = ''/proc'',
      fdCache = Some \<lparr>lru_size = 12500, lru_items = []\<rparr>, evictedCounter = 0\<rparr>"

section \<open>Properties\<close>

subsection \<open>Evaluating the formatting on numerals\<close>

lemma FormatUint_numeral:
  "FormatUint (numeral k) =
     (if numeral k < (10::nat) then [digit (numeral k)]
      else FormatUint (numeral k div 10) @ [digit (numeral k mod 10)])"
  by (rule FormatUint.simps)

lemma FormatUint_0: "FormatUint 0 = ''0''"
  by (simp add: FormatUint.simps[of 0] digit_def)

lemma FormatUint_1: "FormatUint 1 = ''1''" "FormatUint (Suc 0) = ''1''"
  by (simp_all add: FormatUint.simps[of 1] FormatUint.simps[of "Suc 0"] digit_def)

lemmas format_simps = FormatUint_numeral FormatUint_0 FormatUint_1 digit_def

subsection \<open>One call of handleTlsChunk\<close>

lemma createStream_eq:
  "createStream address key w =
     (length (heap w),
      w\<lparr>streams := (streams w)(key \<mapsto> length (heap w)),
        heap := heap w @ [fresh_stream address key w],
        streamId := streamId w + 1,
        table := (table w)(streamId w + 1 \<mapsto> length (heap w))\<rparr>)"
  by (simp add: createStream_def NextId_def Store_def NewTlsStream_def fresh_stream_def Let_def)

lemma handle_new:
  assumes "streams w (chunk_key g d c) = None"
  shows "handleTlsChunk g d c w =
     Some (None,
      w\<lparr>streams := (streams w)(chunk_key g d c \<mapsto> length (heap w)),
        heap := heap w @ [setReader (d c)
           (newChunk (NewTlsReader (buildTcpId (g c) (d c)) (length (heap w)) (d c)) c)
           (fresh_stream (g c) (chunk_key g d c) w)],
        streamId := streamId w + 1,
        table := (table w)(streamId w + 1 \<mapsto> length (heap w))\<rparr>)"
  using assms
  by (simp add: handleTlsChunk_def chunk_key_def createStream_eq Let_def getReader_def fresh_stream_def)

lemma handle_existing:
  assumes "streams w (chunk_key g d c) = Some a" "a < length (heap w)"
    "getReader (d c) (heap w ! a) = Some r"
  shows "handleTlsChunk g d c w =
     Some (None, w\<lparr>heap := (heap w)[a := setReader (d c) (newChunk r c) (heap w ! a)]\<rparr>)"
  using assms
  by (simp add: handleTlsChunk_def chunk_key_def Let_def)


lemma setReader_fields [simp]:
  "stream_key (setReader b r st) = stream_key st"
  "stream_id (setReader b r st) = stream_id st"
  "client (setReader b r st) = (if b then Some r else client st)"
  "server (setReader b r st) = (if b then server st else Some r)"
  by (simp_all add: setReader_def)

lemma fresh_stream_fields [simp]:
  "stream_key (fresh_stream ad k w) = k"
  "stream_id (fresh_stream ad k w) = streamId w + 1"
  "client (fresh_stream ad k w) = Some (NewTlsReader (buildTcpId ad True) (length (heap w)) True)"
  "server (fresh_stream ad k w) = Some (NewTlsReader (buildTcpId ad False) (length (heap w)) False)"
  by (simp_all add: fresh_stream_def)

lemma registry_ok_reader:
  assumes "registry_ok w" "streams w k = Some a"
  shows "a < length (heap w)" "stream_key (heap w ! a) = k"
    "\<exists>r. getReader b (heap w ! a) = Some r"
  using assms by (auto simp: registry_ok_def getReader_def)

lemma registry_ok_new:
  assumes "registry_ok w" "stream_key st = k" "client st \<noteq> None" "server st \<noteq> None"
  shows "registry_ok (w\<lparr>streams := (streams w)(k \<mapsto> length (heap w)),
        heap := heap w @ [st], streamId := i, table := t\<rparr>)"
  using assms by (fastforce simp: registry_ok_def nth_append)

lemma registry_ok_update:
  assumes "registry_ok w" "a < length (heap w)" "stream_key st = stream_key (heap w ! a)"
    "client st \<noteq> None" "server st \<noteq> None"
  shows "registry_ok (w\<lparr>heap := (heap w)[a := st]\<rparr>)"
  using assms by (auto simp: registry_ok_def nth_list_update)

lemma registry_ok_delete:
  assumes "registry_ok w"
  shows "registry_ok (w\<lparr>streams := (streams w)(k := None)\<rparr>)"
  using assms by (auto simp: registry_ok_def)

lemma handle_ok:
  assumes "registry_ok w"
  shows "\<exists>w'. handleTlsChunk g d c w = Some (None, w') \<and> registry_ok w'"
proof (cases "streams w (chunk_key g d c)")
  case None
  let ?st = "setReader (d c)
           (newChunk (NewTlsReader (buildTcpId (g c) (d c)) (length (heap w)) (d c)) c)
           (fresh_stream (g c) (chunk_key g d c) w)"
  have "registry_ok (w\<lparr>streams := (streams w)(chunk_key g d c \<mapsto> length (heap w)),
        heap := heap w @ [?st], streamId := streamId w + 1,
        table := (table w)(streamId w + 1 \<mapsto> length (heap w))\<rparr>)"
    by (rule registry_ok_new [OF assms]) simp_all
  with handle_new [OF None] show ?thesis by blast
next
  case (Some a)
  have a: "a < length (heap w)"
    by (rule registry_ok_reader(1) [OF assms Some])
  obtain r where r: "getReader (d c) (heap w ! a) = Some r"
    using registry_ok_reader(3) [OF assms Some] by blast
  have ro: "client (heap w ! a) \<noteq> None" "server (heap w ! a) \<noteq> None"
    using assms Some by (auto simp: registry_ok_def)
  have "registry_ok (w\<lparr>heap := (heap w)[a := setReader (d c) (newChunk r c) (heap w ! a)]\<rparr>)"
    by (rule registry_ok_update [OF assms a]) (use ro in auto)
  with handle_existing [OF Some a r] show ?thesis by blast
qed

lemma handle_never_error: "handleTlsChunk g d c w \<noteq> Some (Some e, w')"
  by (auto simp: handleTlsChunk_def Let_def split: prod.splits option.splits if_splits)

lemma map_filter_update:
  assumes "a < length xs" "P y = P (xs ! a)" "f y = f (xs ! a)"
  shows "map f (filter P (xs[a := y])) = map f (filter P xs)"
  using assms
proof (induction xs arbitrary: a)
  case Nil
  then show ?case by simp
next
  case (Cons x xs)
  then show ?case by (cases a) auto
qed

lemma routed_setReader:
  assumes "getReader b' st = Some r"
  shows "routed b (setReader b' (newChunk r c) st) = routed b st @ (if b = b' then [c] else [])"
  using assms by (auto simp: routed_def getReader_def setReader_def newChunk_def)

lemma routed_fresh:
  "routed b (setReader b' (newChunk (NewTlsReader i n b') c) (fresh_stream ad k w)) =
     (if b = b' then [c] else [])"
  by (auto simp: routed_def getReader_def setReader_def newChunk_def NewTlsReader_def)

text \<open>One chunk, seen from a key that has a stream.\<close>

lemma step_present:
  assumes ok: "registry_ok w" and k: "streams w k = Some a"
  shows "\<exists>w1. handleTlsChunk g d c w = Some (None, w1) \<and> registry_ok w1 \<and>
           streams w1 k = Some a \<and> ids_of_key k w1 = ids_of_key k w \<and>
           streamId w1 - streamId w = int (length (heap w1)) - int (length (heap w)) \<and>
           length (heap w) \<le> length (heap w1) \<and>
           stream_id (heap w1 ! a) = stream_id (heap w ! a) \<and>
           (\<forall>b. routed b (heap w1 ! a) =
                 routed b (heap w ! a) @ (if chunk_key g d c = k \<and> d c = b then [c] else []))"
proof (cases "streams w (chunk_key g d c)")
  case None
  then have ne: "chunk_key g d c \<noteq> k" using k by auto
  have a: "a < length (heap w)" by (rule registry_ok_reader(1) [OF ok k])
  from handle_ok [OF ok, of g d c] obtain w1 where
    h: "handleTlsChunk g d c w = Some (None, w1)" and ok1: "registry_ok w1" by blast
  from h have w1: "w1 = w\<lparr>streams := (streams w)(chunk_key g d c \<mapsto> length (heap w)),
        heap := heap w @ [setReader (d c)
           (newChunk (NewTlsReader (buildTcpId (g c) (d c)) (length (heap w)) (d c)) c)
           (fresh_stream (g c) (chunk_key g d c) w)],
        streamId := streamId w + 1,
        table := (table w)(streamId w + 1 \<mapsto> length (heap w))\<rparr>"
    unfolding handle_new [OF None] by simp
  show ?thesis
    using h ok1 ne k a by (simp add: w1 ids_of_key_def nth_append)
next
  case (Some a')
  have a': "a' < length (heap w)" by (rule registry_ok_reader(1) [OF ok Some])
  have a: "a < length (heap w)" by (rule registry_ok_reader(1) [OF ok k])
  obtain r where r: "getReader (d c) (heap w ! a') = Some r"
    using registry_ok_reader(3) [OF ok Some] by blast
  from handle_ok [OF ok, of g d c] obtain w1 where
    h: "handleTlsChunk g d c w = Some (None, w1)" and ok1: "registry_ok w1" by blast
  from h have w1: "w1 = w\<lparr>heap := (heap w)[a' := setReader (d c) (newChunk r c) (heap w ! a')]\<rparr>"
    unfolding handle_existing [OF Some a' r] by simp
  have keys: "stream_key (heap w ! a') = chunk_key g d c" "stream_key (heap w ! a) = k"
    using registry_ok_reader(2) [OF ok Some] registry_ok_reader(2) [OF ok k] by simp_all
  have ids: "ids_of_key k w1 = ids_of_key k w"
    unfolding ids_of_key_def w1 by (simp add: map_filter_update [OF a'])
  show ?thesis
  proof (cases "chunk_key g d c = k")
    case True
    then have "a' = a" using Some k by simp
    then show ?thesis
      using h ok1 k a ids True r by (simp add: w1 routed_setReader)
  next
    case False
    then have "a' \<noteq> a" using keys by auto
    then show ?thesis
      using h ok1 k a ids False by (simp add: w1)
  qed
qed

text \<open>One chunk of another key, seen from a key that has no stream.\<close>

lemma step_absent:
  assumes ok: "registry_ok w" and k: "streams w k = None" and ne: "chunk_key g d c \<noteq> k"
  shows "\<exists>w1. handleTlsChunk g d c w = Some (None, w1) \<and> registry_ok w1 \<and>
           streams w1 k = None \<and> ids_of_key k w1 = ids_of_key k w \<and>
           streamId w1 - streamId w = int (length (heap w1)) - int (length (heap w)) \<and>
           length (heap w) \<le> length (heap w1)"
proof (cases "streams w (chunk_key g d c)")
  case None
  from handle_ok [OF ok, of g d c] obtain w1 where
    h: "handleTlsChunk g d c w = Some (None, w1)" and ok1: "registry_ok w1" by blast
  from h have w1: "w1 = w\<lparr>streams := (streams w)(chunk_key g d c \<mapsto> length (heap w)),
        heap := heap w @ [setReader (d c)
           (newChunk (NewTlsReader (buildTcpId (g c) (d c)) (length (heap w)) (d c)) c)
           (fresh_stream (g c) (chunk_key g d c) w)],
        streamId := streamId w + 1,
        table := (table w)(streamId w + 1 \<mapsto> length (heap w))\<rparr>"
    unfolding handle_new [OF None] by simp
  show ?thesis
    using h ok1 ne k by (simp add: w1 ids_of_key_def)
next
  case (Some a')
  have a': "a' < length (heap w)" by (rule registry_ok_reader(1) [OF ok Some])
  obtain r where r: "getReader (d c) (heap w ! a') = Some r"
    using registry_ok_reader(3) [OF ok Some] by blast
  from handle_ok [OF ok, of g d c] obtain w1 where
    h: "handleTlsChunk g d c w = Some (None, w1)" and ok1: "registry_ok w1" by blast
  from h have w1: "w1 = w\<lparr>heap := (heap w)[a' := setReader (d c) (newChunk r c) (heap w ! a')]\<rparr>"
    unfolding handle_existing [OF Some a' r] by simp
  have ids: "ids_of_key k w1 = ids_of_key k w"
    unfolding ids_of_key_def w1 by (simp add: map_filter_update [OF a'])
  show ?thesis
    using h ok1 k ids by (simp add: w1)
qed

text \<open>The first chunk of a key that has no stream.\<close>

lemma step_create:
  assumes ok: "registry_ok w" and k: "streams w k = None" and eq: "chunk_key g d c = k"
  shows "\<exists>w1. handleTlsChunk g d c w = Some (None, w1) \<and> registry_ok w1 \<and>
           streams w1 k = Some (length (heap w)) \<and>
           ids_of_key k w1 = ids_of_key k w @ [streamId w + 1] \<and>
           stream_id (heap w1 ! length (heap w)) = streamId w + 1 \<and>
           streamId w1 = streamId w + 1 \<and>
           length (heap w1) = Suc (length (heap w)) \<and>
           (\<forall>b. routed b (heap w1 ! length (heap w)) = (if d c = b then [c] else []))"
proof -
  have None: "streams w (chunk_key g d c) = None" using k eq by simp
  from handle_ok [OF ok, of g d c] obtain w1 where
    h: "handleTlsChunk g d c w = Some (None, w1)" and ok1: "registry_ok w1" by blast
  from h have w1: "w1 = w\<lparr>streams := (streams w)(chunk_key g d c \<mapsto> length (heap w)),
        heap := heap w @ [setReader (d c)
           (newChunk (NewTlsReader (buildTcpId (g c) (d c)) (length (heap w)) (d c)) c)
           (fresh_stream (g c) (chunk_key g d c) w)],
        streamId := streamId w + 1,
        table := (table w)(streamId w + 1 \<mapsto> length (heap w))\<rparr>"
    unfolding handle_new [OF None] by simp
  show ?thesis
    using h ok1 eq by (simp add: w1 ids_of_key_def routed_fresh)
qed

subsection \<open>Runs of the demultiplexer\<close>

lemma poll_present:
  assumes "registry_ok w" "streams w k = Some a"
    "CloseStream k \<notin> set es" "ChunksClosed \<notin> set es"
  shows "\<exists>w'. poll g d es w = Blocked w' \<and> registry_ok w' \<and>
           streams w' k = Some a \<and> ids_of_key k w' = ids_of_key k w \<and>
           streamId w' - streamId w = int (length (heap w')) - int (length (heap w)) \<and>
           length (heap w) \<le> length (heap w') \<and>
           stream_id (heap w' ! a) = stream_id (heap w ! a) \<and>
           (\<forall>b. routed b (heap w' ! a) =
                 routed b (heap w ! a) @
                 filter (\<lambda>c. chunk_key g d c = k \<and> d c = b) (received_chunks es))"
  using assms
proof (induction es arbitrary: w)
  case Nil
  then show ?case by simp
next
  case (Cons e es)
  show ?case
  proof (cases e)
    case (ChunkReceived c)
    from step_present [OF Cons.prems(1,2), of g d c] obtain w1 where
      h: "handleTlsChunk g d c w = Some (None, w1)" and ok1: "registry_ok w1"
      and k1: "streams w1 k = Some a" and ids1: "ids_of_key k w1 = ids_of_key k w"
      and n1: "streamId w1 - streamId w = int (length (heap w1)) - int (length (heap w))"
      and l1: "length (heap w) \<le> length (heap w1)"
      and s1: "stream_id (heap w1 ! a) = stream_id (heap w ! a)"
      and r1: "\<And>b. routed b (heap w1 ! a) =
                 routed b (heap w ! a) @ (if chunk_key g d c = k \<and> d c = b then [c] else [])"
      by blast
    from Cons.prems have rest: "CloseStream k \<notin> set es" "ChunksClosed \<notin> set es" by simp_all
    from Cons.IH [OF ok1 k1 rest] obtain w' where
      p: "poll g d es w1 = Blocked w'" and ok': "registry_ok w'"
      and k': "streams w' k = Some a" and ids': "ids_of_key k w' = ids_of_key k w1"
      and n': "streamId w' - streamId w1 = int (length (heap w')) - int (length (heap w1))"
      and l': "length (heap w1) \<le> length (heap w')"
      and s': "stream_id (heap w' ! a) = stream_id (heap w1 ! a)"
      and r': "\<And>b. routed b (heap w' ! a) =
                 routed b (heap w1 ! a) @
                 filter (\<lambda>c. chunk_key g d c = k \<and> d c = b) (received_chunks es)"
      by blast
    have "poll g d (e # es) w = Blocked w'" using h p ChunkReceived by simp
    moreover have "\<forall>b. routed b (heap w' ! a) =
                 routed b (heap w ! a) @
                 filter (\<lambda>c. chunk_key g d c = k \<and> d c = b) (received_chunks (e # es))"
      using r1 r' ChunkReceived by simp
    ultimately show ?thesis
      using ok' k' ids' ids1 n1 n' l1 l' s1 s' by simp
  next
    case ChunksClosed
    with Cons.prems show ?thesis by simp
  next
    case (CloseStream k')
    with Cons.prems have ne: "k' \<noteq> k" by auto
    let ?w1 = "w\<lparr>streams := (streams w)(k' := None)\<rparr>"
    have ok1: "registry_ok ?w1" by (rule registry_ok_delete [OF Cons.prems(1)])
    have k1: "streams ?w1 k = Some a" using ne Cons.prems(2) by simp
    from Cons.prems have rest: "CloseStream k \<notin> set es" "ChunksClosed \<notin> set es" by simp_all
    from Cons.IH [OF ok1 k1 rest] obtain w' where
      p: "poll g d es ?w1 = Blocked w'" and ok': "registry_ok w'"
      and k': "streams w' k = Some a" and ids': "ids_of_key k w' = ids_of_key k ?w1"
      and n': "streamId w' - streamId ?w1 = int (length (heap w')) - int (length (heap ?w1))"
      and l': "length (heap ?w1) \<le> length (heap w')"
      and s': "stream_id (heap w' ! a) = stream_id (heap ?w1 ! a)"
      and r': "\<And>b. routed b (heap w' ! a) =
                 routed b (heap ?w1 ! a) @
                 filter (\<lambda>c. chunk_key g d c = k \<and> d c = b) (received_chunks es)"
      by blast
    have "poll g d (e # es) w = Blocked w'" using p CloseStream by simp
    then show ?thesis
      using ok' k' ids' n' l' s' r' CloseStream by (simp add: ids_of_key_def)
  qed
qed

text \<open>
  Claim C1. Take any sequence of events handled by the demultiplexer that holds no teardown
  of the key \<open>k\<close> and at least one chunk that maps to \<open>k\<close>, started in a state whose
  registry has no stream for \<open>k\<close>. Exactly one stream is created for \<open>k\<close> (the identities
  of the streams created for \<open>k\<close> grow by one element), that stream holds an identity handed
  out during the run, the allocator hands out exactly as many identities as streams are
  created, and every chunk that maps to \<open>k\<close> is routed to that one stream: its client's and
  its server's reader have ingested exactly the request and the response chunks of \<open>k\<close>, in
  order. The registry is a map, so it holds at most one stream for a key at any time.
\<close>

theorem one_stream_per_flow_key:
  assumes "registry_ok w" "streams w k = None"
    "CloseStream k \<notin> set es" "ChunksClosed \<notin> set es"
    "\<exists>c \<in> set (received_chunks es). chunk_key g d c = k"
  shows "\<exists>w' a. poll g d es w = Blocked w' \<and> registry_ok w' \<and>
           streams w' k = Some a \<and> length (heap w) \<le> a \<and> a < length (heap w') \<and>
           ids_of_key k w' = ids_of_key k w @ [stream_id (heap w' ! a)] \<and>
           streamId w < stream_id (heap w' ! a) \<and> stream_id (heap w' ! a) \<le> streamId w' \<and>
           streamId w' - streamId w = int (length (heap w')) - int (length (heap w)) \<and>
           (\<forall>b. routed b (heap w' ! a) =
                 filter (\<lambda>c. chunk_key g d c = k \<and> d c = b) (received_chunks es))"
  using assms
proof (induction es arbitrary: w)
  case Nil
  then show ?case by simp
next
  case (Cons e es)
  from Cons.prems have rest: "CloseStream k \<notin> set es" "ChunksClosed \<notin> set es" by simp_all
  show ?case
  proof (cases e)
    case (ChunkReceived c)
    show ?thesis
    proof (cases "chunk_key g d c = k")
      case True
      let ?a = "length (heap w)"
      from step_create [OF Cons.prems(1,2) True] obtain w1 where
        h: "handleTlsChunk g d c w = Some (None, w1)" and ok1: "registry_ok w1"
        and k1: "streams w1 k = Some ?a"
        and ids1: "ids_of_key k w1 = ids_of_key k w @ [streamId w + 1]"
        and id1: "stream_id (heap w1 ! ?a) = streamId w + 1"
        and n1: "streamId w1 = streamId w + 1"
        and l1: "length (heap w1) = Suc ?a"
        and r1: "\<And>b. routed b (heap w1 ! ?a) = (if d c = b then [c] else [])"
        by blast
      from poll_present [OF ok1 k1 rest, of g d] obtain w' where
        p: "poll g d es w1 = Blocked w'" and ok': "registry_ok w'"
        and k': "streams w' k = Some ?a" and ids': "ids_of_key k w' = ids_of_key k w1"
        and n': "streamId w' - streamId w1 = int (length (heap w')) - int (length (heap w1))"
        and l': "length (heap w1) \<le> length (heap w')"
        and s': "stream_id (heap w' ! ?a) = stream_id (heap w1 ! ?a)"
        and r': "\<And>b. routed b (heap w' ! ?a) =
                 routed b (heap w1 ! ?a) @
                 filter (\<lambda>c. chunk_key g d c = k \<and> d c = b) (received_chunks es)"
        by blast
      have run: "poll g d (e # es) w = Blocked w'" using h p ChunkReceived by simp
      have sid: "stream_id (heap w' ! ?a) = streamId w + 1" using s' id1 by simp
      have rt: "\<forall>b. routed b (heap w' ! ?a) =
                 filter (\<lambda>c. chunk_key g d c = k \<and> d c = b) (received_chunks (e # es))"
        using r1 r' True ChunkReceived by simp
      have "?a < length (heap w')" using l1 l' by simp
      moreover have "ids_of_key k w' = ids_of_key k w @ [stream_id (heap w' ! ?a)]"
        using ids' ids1 sid by simp
      moreover have "streamId w < stream_id (heap w' ! ?a)" using sid by simp
      moreover have "stream_id (heap w' ! ?a) \<le> streamId w'" using sid n' n1 l' by simp
      moreover have "streamId w' - streamId w = int (length (heap w')) - int (length (heap w))"
        using n' n1 l1 by simp
      ultimately show ?thesis using run ok' k' rt by blast
    next
      case False
      from step_absent [OF Cons.prems(1,2) False] obtain w1 where
        h: "handleTlsChunk g d c w = Some (None, w1)" and ok1: "registry_ok w1"
        and k1: "streams w1 k = None" and ids1: "ids_of_key k w1 = ids_of_key k w"
        and n1: "streamId w1 - streamId w = int (length (heap w1)) - int (length (heap w))"
        and l1: "length (heap w) \<le> length (heap w1)"
        by blast
      from Cons.prems(5) False ChunkReceived
      have ex: "\<exists>c \<in> set (received_chunks es). chunk_key g d c = k" by auto
      from Cons.IH [OF ok1 k1 rest ex] obtain w' a where
        p: "poll g d es w1 = Blocked w'" and ok': "registry_ok w'"
        and k': "streams w' k = Some a" and a1: "length (heap w1) \<le> a"
        and a2: "a < length (heap w')"
        and ids': "ids_of_key k w' = ids_of_key k w1 @ [stream_id (heap w' ! a)]"
        and lo: "streamId w1 < stream_id (heap w' ! a)"
        and hi: "stream_id (heap w' ! a) \<le> streamId w'"
        and n': "streamId w' - streamId w1 = int (length (heap w')) - int (length (heap w1))"
        and r': "\<forall>b. routed b (heap w' ! a) =
                 filter (\<lambda>c. chunk_key g d c = k \<and> d c = b) (received_chunks es)"
        by blast
      have run: "poll g d (e # es) w = Blocked w'" using h p ChunkReceived by simp
      have rt: "\<forall>b. routed b (heap w' ! a) =
                 filter (\<lambda>c. chunk_key g d c = k \<and> d c = b) (received_chunks (e # es))"
        using r' False ChunkReceived by simp
      have "length (heap w) \<le> a" using a1 l1 by simp
      moreover have "ids_of_key k w' = ids_of_key k w @ [stream_id (heap w' ! a)]"
        using ids' ids1 by simp
      moreover have "streamId w < stream_id (heap w' ! a)" using lo n1 l1 by simp
      moreover have "streamId w' - streamId w = int (length (heap w')) - int (length (heap w))"
        using n' n1 by simp
      ultimately show ?thesis using run ok' k' a2 hi rt by blast
    qed
  next
    case ChunksClosed
    with Cons.prems show ?thesis by simp
  next
    case (CloseStream k')
    with Cons.prems have ne: "k' \<noteq> k" by auto
    let ?w1 = "w\<lparr>streams := (streams w)(k' := None)\<rparr>"
    have ok1: "registry_ok ?w1" by (rule registry_ok_delete [OF Cons.prems(1)])
    have k1: "streams ?w1 k = None" using Cons.prems(2) by simp
    from Cons.prems(5) CloseStream
    have ex: "\<exists>c \<in> set (received_chunks es). chunk_key g d c = k" by simp
    from Cons.IH [OF ok1 k1 rest ex] obtain w' a where
      p: "poll g d es ?w1 = Blocked w'" and ok': "registry_ok w'"
      and k': "streams w' k = Some a" and a1: "length (heap ?w1) \<le> a"
      and a2: "a < length (heap w')"
      and ids': "ids_of_key k w' = ids_of_key k ?w1 @ [stream_id (heap w' ! a)]"
      and lo: "streamId ?w1 < stream_id (heap w' ! a)"
      and hi: "stream_id (heap w' ! a) \<le> streamId w'"
      and n': "streamId w' - streamId ?w1 = int (length (heap w')) - int (length (heap ?w1))"
      and r': "\<forall>b. routed b (heap w' ! a) =
                 filter (\<lambda>c. chunk_key g d c = k \<and> d c = b) (received_chunks es)"
      by blast
    have run: "poll g d (e # es) w = Blocked w'" using p CloseStream by simp
    show ?thesis
      using run ok' k' a1 a2 ids' lo hi n' r' CloseStream by (simp add: ids_of_key_def)
  qed
qed


theorem one_stream_per_flow_key_witness:
  "registry_ok (new_world sample_poller) \<and>
   streams (new_world sample_poller) (buildTlsKey scenario_quad True) = None \<and>
   CloseStream (buildTlsKey scenario_quad True) \<notin>
     set [ChunkReceived sample_chunk, CloseStream ''other'', ChunkReceived sample_chunk] \<and>
   ChunksClosed \<notin>
     set [ChunkReceived sample_chunk, CloseStream ''other'', ChunkReceived sample_chunk] \<and>
   (\<exists>c \<in> set (received_chunks
       [ChunkReceived sample_chunk, CloseStream ''other'', ChunkReceived sample_chunk]).
      chunk_key (\<lambda>_. scenario_quad) (\<lambda>_. True) c = buildTlsKey scenario_quad True) \<and>
   (\<exists>w' a. poll (\<lambda>_. scenario_quad) (\<lambda>_. True)
       [ChunkReceived sample_chunk, CloseStream ''other'', ChunkReceived sample_chunk]
       (new_world sample_poller) = Blocked w' \<and>
     streams w' (buildTlsKey scenario_quad True) = Some a \<and>
     ids_of_key (buildTlsKey scenario_quad True) w' = [stream_id (heap w' ! a)] \<and>
     streamId w' = int (length (heap w')) \<and>
     routed True (heap w' ! a) = [sample_chunk, sample_chunk] \<and>
     routed False (heap w' ! a) = [])"
proof -
  let ?k = "buildTlsKey scenario_quad True"
  let ?es = "[ChunkReceived sample_chunk, CloseStream ''other'', ChunkReceived sample_chunk]"
  let ?w = "new_world sample_poller"
  have key: "?k = ''10.0.0.1:5000>10.0.0.2:443''"
    by (simp add: buildTlsKey_def format_simps)
  have h1: "registry_ok ?w" by (simp add: registry_ok_def new_world_def)
  have h2: "streams ?w ?k = None" by (simp add: new_world_def)
  have h3: "CloseStream ?k \<notin> set ?es" by (simp add: key)
  have h4: "ChunksClosed \<notin> set ?es" by simp
  have h5: "\<exists>c \<in> set (received_chunks ?es).
      chunk_key (\<lambda>_. scenario_quad) (\<lambda>_. True) c = ?k"
    by (simp add: chunk_key_def)
  from one_stream_per_flow_key [OF h1 h2 h3 h4 h5] obtain w' a where
    r: "poll (\<lambda>_. scenario_quad) (\<lambda>_. True) ?es ?w = Blocked w'"
      "streams w' ?k = Some a"
      "ids_of_key ?k w' = ids_of_key ?k ?w @ [stream_id (heap w' ! a)]"
      "streamId w' - streamId ?w = int (length (heap w')) - int (length (heap ?w))"
      "\<forall>b. routed b (heap w' ! a) =
          filter (\<lambda>c. chunk_key (\<lambda>_. scenario_quad) (\<lambda>_. True) c = ?k \<and> True = b)
            (received_chunks ?es)"
    by blast
  have "ids_of_key ?k w' = [stream_id (heap w' ! a)]"
    using r(3) by (simp add: ids_of_key_def new_world_def)
  moreover have "streamId w' = int (length (heap w'))"
    using r(4) by (simp add: new_world_def)
  moreover have "routed True (heap w' ! a) = [sample_chunk, sample_chunk]"
    using r(5) by (simp add: chunk_key_def)
  moreover have "routed False (heap w' ! a) = []"
    using r(5) by (simp add: chunk_key_def)
  ultimately show ?thesis using h1 h2 h3 h4 h5 r(1,2) by blast
qed

subsection \<open>The canonicalizer, the constructor and the dispatch\<close>

text \<open>
  Claim C2. The flow key of a quad taken as a request is the flow key of the reversed quad
  taken as a response, so both directions of one exchange map to one key.
\<close>

theorem flow_key_symmetric:
  "buildTlsKey quad True = buildTlsKey (reverse_quad quad) False"
  by (simp add: buildTlsKey_def reverse_quad_def)

lemma fdCacheMaxItems_value: "fdCacheMaxItems = 12500"
  by (simp add: fdCacheMaxItems_def fdCachedItemAvgSize_def)

text \<open>
  Claim C9. The construction of the cache fails exactly when the capacity is not positive,
  the capacity \<^verbatim>\<open>fdCacheMaxItems\<close> is positive, and so \<^verbatim>\<open>newTlsPoller\<close> returns no error
  on any arguments: it returns a poller with an empty registry and an empty cache of
  capacity 12500.
\<close>

theorem newTlsPoller_never_fails:
  "(\<forall>capacity. (\<exists>err. NewLRU capacity = Inl err) = (capacity \<le> 0)) \<and>
   0 < fdCacheMaxItems \<and>
   newTlsPoller tracer procfs_path =
     Inr \<lparr>tls = tracer, streams = Map.empty, procfs = procfs_path,
          fdCache = Some \<lparr>lru_size = 12500, lru_items = []\<rparr>, evictedCounter = 0\<rparr>"
  by (simp add: newTlsPoller_def NewLRU_def fdCacheMaxItems_value)

lemma registry_ok_new_world: "streams p = Map.empty \<Longrightarrow> registry_ok (new_world p)"
  by (simp add: registry_ok_def new_world_def)

lemma handle_log:
  assumes "handleTlsChunk g d c w = Some (r, w')"
  shows "log w' = log w"
  using assms
  by (auto simp: handleTlsChunk_def createStream_eq Let_def split: option.splits if_splits)

lemma poll_log:
  "run_state (poll g d es w) = Some w' \<Longrightarrow> log w' = log w"
proof (induction es arbitrary: w)
  case Nil
  then show ?case by simp
next
  case (Cons e es)
  show ?case
  proof (cases e)
    case (ChunkReceived c)
    show ?thesis
    proof (cases "handleTlsChunk g d c w")
      case None
      with Cons.prems ChunkReceived show ?thesis by simp
    next
      case (Some rw)
      obtain r w1 where rw: "rw = (r, w1)" by (cases rw)
      have r: "r = None" using Some rw handle_never_error [of g d c w _ w1] by (cases r) auto
      have "log w1 = log w" using handle_log Some rw by blast
      moreover have "run_state (poll g d es w1) = Some w'"
        using Cons.prems ChunkReceived Some rw r by simp
      ultimately show ?thesis using Cons.IH by simp
    qed
  next
    case ChunksClosed
    with Cons.prems show ?thesis by simp
  next
    case (CloseStream k)
    with Cons.prems have "run_state (poll g d es (w\<lparr>streams := (streams w)(k := None)\<rparr>)) = Some w'"
      by simp
    from Cons.IH [OF this] show ?thesis by simp
  qed
qed

lemma poll_no_panic:
  assumes "registry_ok w"
  shows "\<exists>w'. run_state (poll g d es w) = Some w' \<and> registry_ok w'"
  using assms
proof (induction es arbitrary: w)
  case Nil
  then show ?case by simp
next
  case (Cons e es)
  show ?case
  proof (cases e)
    case (ChunkReceived c)
    from handle_ok [OF Cons.prems, of g d c] obtain w1 where
      h: "handleTlsChunk g d c w = Some (None, w1)" and ok1: "registry_ok w1" by blast
    from Cons.IH [OF ok1] show ?thesis using h ChunkReceived by simp
  next
    case ChunksClosed
    with Cons.prems show ?thesis by simp
  next
    case (CloseStream k)
    from Cons.IH [OF registry_ok_delete [OF Cons.prems, of k]] show ?thesis
      using CloseStream by simp
  qed
qed

text \<open>
  Claim C10. Whenever \<^verbatim>\<open>handleTlsChunk\<close> returns, the error it returns is \<^verbatim>\<open>nil\<close>; on a
  well-formed registry it does return, for every chunk. Hence \<^verbatim>\<open>poll\<close> never logs a
  dispatch error: the log is the same after any run, and no run panics on a well-formed
  registry.
\<close>

theorem handleTlsChunk_returns_nil:
  "(\<forall>r w'. handleTlsChunk g d c w = Some (r, w') \<longrightarrow> r = None) \<and>
   (registry_ok w \<longrightarrow> (\<exists>w'. handleTlsChunk g d c w = Some (None, w'))) \<and>
   (\<forall>w'. run_state (poll g d es w) = Some w' \<longrightarrow> log w' = log w) \<and>
   (registry_ok w \<longrightarrow> poll g d es w \<noteq> Panicked)"
proof (intro conjI allI impI)
  fix r w' assume "handleTlsChunk g d c w = Some (r, w')"
  then show "r = None" using handle_never_error [of g d c w _ w'] by (cases r) auto
next
  assume "registry_ok w"
  from handle_ok [OF this] show "\<exists>w'. handleTlsChunk g d c w = Some (None, w')" by blast
next
  fix w' assume "run_state (poll g d es w) = Some w'"
  then show "log w' = log w" by (rule poll_log)
next
  assume "registry_ok w"
  from poll_no_panic [OF this, of g d es] show "poll g d es w \<noteq> Panicked" by auto
qed

theorem handleTlsChunk_returns_nil_witness:
  "registry_ok (new_world sample_poller) \<and>
   (\<exists>w'. handleTlsChunk (\<lambda>_. scenario_quad) (\<lambda>_. True) sample_chunk (new_world sample_poller)
            = Some (None, w')) \<and>
   (\<exists>w'. run_state (poll (\<lambda>_. scenario_quad) (\<lambda>_. True)
            [ChunkReceived sample_chunk, ChunksClosed] (new_world sample_poller)) = Some w' \<and>
          log w' = log (new_world sample_poller)) \<and>
   poll (\<lambda>_. scenario_quad) (\<lambda>_. True) [ChunkReceived sample_chunk, ChunksClosed]
     (new_world sample_poller) \<noteq> Panicked"
proof -
  have ok: "registry_ok (new_world sample_poller)"
    by (simp add: registry_ok_new_world)
  note t = handleTlsChunk_returns_nil [of "\<lambda>_. scenario_quad" "\<lambda>_. True" sample_chunk
      "new_world sample_poller" "[ChunkReceived sample_chunk, ChunksClosed]"]
  from t ok have np: "poll (\<lambda>_. scenario_quad) (\<lambda>_. True) [ChunkReceived sample_chunk, ChunksClosed]
     (new_world sample_poller) \<noteq> Panicked" by blast
  then obtain w' where "run_state (poll (\<lambda>_. scenario_quad) (\<lambda>_. True)
            [ChunkReceived sample_chunk, ChunksClosed] (new_world sample_poller)) = Some w'"
    by (cases "poll (\<lambda>_. scenario_quad) (\<lambda>_. True) [ChunkReceived sample_chunk, ChunksClosed]
     (new_world sample_poller)") auto
  with t ok np show ?thesis by blast
qed


subsection \<open>The identities bound at creation\<close>

text \<open>What the creation block binds: the identities built from the address pair of the
  chunk that triggers the creation, in request orientation for the client-side reader and in
  response orientation for the server-side reader. The direction of the chunk is not
  consulted, unlike in the computation of the key.\<close>

lemma creation_identities:
  assumes "streams w (chunk_key g d c) = None"
  shows "\<exists>w'. handleTlsChunk g d c w = Some (None, w') \<and>
           streams w' (chunk_key g d c) = Some (length (heap w)) \<and>
           map_option tcpID (client (heap w' ! length (heap w))) = Some (buildTcpId (g c) True) \<and>
           map_option tcpID (server (heap w' ! length (heap w))) = Some (buildTcpId (g c) False) \<and>
           map_option isClient (client (heap w' ! length (heap w))) = Some True \<and>
           map_option isClient (server (heap w' ! length (heap w))) = Some False"
  unfolding handle_new [OF assms]
  by (auto simp: setReader_def newChunk_def NewTlsReader_def)

text \<open>For the reversed pair the two identities are exchanged.\<close>

lemma buildTcpId_reverse:
  "buildTcpId (reverse_quad quad) True = buildTcpId quad False"
  "buildTcpId (reverse_quad quad) False = buildTcpId quad True"
  by (simp_all add: buildTcpId_def reverse_quad_def)

lemma scenario_keys:
  "buildTlsKey scenario_quad True = ''10.0.0.1:5000>10.0.0.2:443''"
  "buildTlsKey (reverse_quad scenario_quad) False = ''10.0.0.1:5000>10.0.0.2:443''"
  by (simp_all add: buildTlsKey_def reverse_quad_def format_simps)

lemma scenario_ids:
  "buildTcpId scenario_quad True =
     \<lparr>SrcIP = ''10.0.0.1'', DstIP = ''10.0.0.2'', SrcPort = ''5000'', DstPort = ''443''\<rparr>"
  "buildTcpId scenario_quad False =
     \<lparr>SrcIP = ''10.0.0.2'', DstIP = ''10.0.0.1'', SrcPort = ''443'', DstPort = ''5000''\<rparr>"
  by (simp_all add: buildTcpId_def format_simps)

lemma first_then_second:
  assumes k1: "chunk_key g d c1 = k" and k2: "chunk_key g d c2 = k"
    and none: "streams w k = None"
  shows "\<exists>w1 w2. handleTlsChunk g d c1 w = Some (None, w1) \<and>
           handleTlsChunk g d c2 w1 = Some (None, w2) \<and>
           length (heap w2) = Suc (length (heap w)) \<and>
           streams w2 k = Some (length (heap w)) \<and>
           map_option tcpID (client (heap w2 ! length (heap w))) = Some (buildTcpId (g c1) True) \<and>
           map_option tcpID (server (heap w2 ! length (heap w))) = Some (buildTcpId (g c1) False)"
proof -
  let ?a = "length (heap w)"
  let ?st = "setReader (d c1)
           (newChunk (NewTlsReader (buildTcpId (g c1) (d c1)) ?a (d c1)) c1)
           (fresh_stream (g c1) (chunk_key g d c1) w)"
  let ?w1 = "w\<lparr>streams := (streams w)(chunk_key g d c1 \<mapsto> ?a),
        heap := heap w @ [?st], streamId := streamId w + 1,
        table := (table w)(streamId w + 1 \<mapsto> ?a)\<rparr>"
  have n: "streams w (chunk_key g d c1) = None" using none k1 by simp
  have h1: "handleTlsChunk g d c1 w = Some (None, ?w1)" by (rule handle_new [OF n])
  have s: "streams ?w1 (chunk_key g d c2) = Some ?a" using k1 k2 by simp
  have a: "?a < length (heap ?w1)" by simp
  obtain r where r: "getReader (d c2) (heap ?w1 ! ?a) = Some r"
    by (cases "d c1"; cases "d c2") (simp_all add: getReader_def setReader_def)
  have h2: "handleTlsChunk g d c2 ?w1 =
      Some (None, ?w1\<lparr>heap := (heap ?w1)[?a := setReader (d c2) (newChunk r c2) (heap ?w1 ! ?a)]\<rparr>)"
    by (rule handle_existing [OF s a r])
  have c: "map_option tcpID (client (setReader (d c2) (newChunk r c2) ?st)) =
      Some (buildTcpId (g c1) True)"
    using r
    by (cases "d c1"; cases "d c2")
      (auto simp: getReader_def setReader_def newChunk_def NewTlsReader_def fresh_stream_def)
  have sv: "map_option tcpID (server (setReader (d c2) (newChunk r c2) ?st)) =
      Some (buildTcpId (g c1) False)"
    using r
    by (cases "d c1"; cases "d c2")
      (auto simp: getReader_def setReader_def newChunk_def NewTlsReader_def fresh_stream_def)
  show ?thesis
    apply (rule exI [of _ ?w1])
    apply (rule exI [of _ "?w1\<lparr>heap := (heap ?w1)[?a := setReader (d c2) (newChunk r c2) (heap ?w1 ! ?a)]\<rparr>"])
    using h1 h2 c sv k1 by simp
qed

text \<open>
  Claim C3. The claim is that the client-side reader is bound to the request-oriented
  identity and the server-side reader to the response-oriented one, the same two identities
  whichever chunk of the flow triggers the creation: for the flow 10.0.0.1:5000 to
  10.0.0.2:443, client 10.0.0.1:5000 to 10.0.0.2:443 and server 10.0.0.2:443 to
  10.0.0.1:5000. The request chunk carries the quad and the response chunk the reversed
  quad, so both map to the key of the flow and one stream is created. When the request chunk
  arrives first the code binds the two identities of the claim. When the response chunk
  arrives first the code binds the client-side reader to 10.0.0.2:443 to 10.0.0.1:5000 and
  the server-side reader to 10.0.0.1:5000 to 10.0.0.2:443: the two identities are exchanged,
  and the request chunk that follows is routed to that stream and changes neither.
\<close>

theorem creation_identities_follow_first_chunk:
  assumes "g req = scenario_quad" "d req"
    and "g resp = reverse_quad scenario_quad" "\<not> d resp"
    and "streams w ''10.0.0.1:5000>10.0.0.2:443'' = None"
  shows "chunk_key g d req = ''10.0.0.1:5000>10.0.0.2:443'' \<and>
         chunk_key g d resp = ''10.0.0.1:5000>10.0.0.2:443'' \<and>
         (\<exists>w1 w2. handleTlsChunk g d req w = Some (None, w1) \<and>
            handleTlsChunk g d resp w1 = Some (None, w2) \<and>
            length (heap w2) = Suc (length (heap w)) \<and>
            streams w2 ''10.0.0.1:5000>10.0.0.2:443'' = Some (length (heap w)) \<and>
            map_option tcpID (client (heap w2 ! length (heap w))) =
              Some \<lparr>SrcIP = ''10.0.0.1'', DstIP = ''10.0.0.2'',
                    SrcPort = ''5000'', DstPort = ''443''\<rparr> \<and>
            map_option tcpID (server (heap w2 ! length (heap w))) =
              Some \<lparr>SrcIP = ''10.0.0.2'', DstIP = ''10.0.0.1'',
                    SrcPort = ''443'', DstPort = ''5000''\<rparr>) \<and>
         (\<exists>w1 w2. handleTlsChunk g d resp w = Some (None, w1) \<and>
            handleTlsChunk g d req w1 = Some (None, w2) \<and>
            length (heap w2) = Suc (length (heap w)) \<and>
            streams w2 ''10.0.0.1:5000>10.0.0.2:443'' = Some (length (heap w)) \<and>
            map_option tcpID (client (heap w2 ! length (heap w))) =
              Some \<lparr>SrcIP = ''10.0.0.2'', DstIP = ''10.0.0.1'',
                    SrcPort = ''443'', DstPort = ''5000''\<rparr> \<and>
            map_option tcpID (server (heap w2 ! length (heap w))) =
              Some \<lparr>SrcIP = ''10.0.0.1'', DstIP = ''10.0.0.2'',
                    SrcPort = ''5000'', DstPort = ''443''\<rparr>)"
proof -
  have k1: "chunk_key g d req = ''10.0.0.1:5000>10.0.0.2:443''"
    using assms(1,2) by (simp add: chunk_key_def scenario_keys)
  have k2: "chunk_key g d resp = ''10.0.0.1:5000>10.0.0.2:443''"
    using assms(3,4) by (simp add: chunk_key_def scenario_keys)
  note a = first_then_second [OF k1 k2 assms(5), unfolded assms(1) scenario_ids]
  note b = first_then_second [OF k2 k1 assms(5), unfolded assms(3) buildTcpId_reverse scenario_ids]
  from k1 k2 a b show ?thesis by blast
qed

theorem creation_identities_follow_first_chunk_witness:
  "(let g = (\<lambda>c :: tracerTlsChunk. if Flags c = 0 then scenario_quad else reverse_quad scenario_quad);
        d = (\<lambda>c :: tracerTlsChunk. Flags c = 0);
        req = sample_chunk;
        resp = sample_chunk\<lparr>Flags := 1\<rparr>;
        w = new_world sample_poller
    in g req = scenario_quad \<and> d req \<and> g resp = reverse_quad scenario_quad \<and> \<not> d resp \<and>
       streams w ''10.0.0.1:5000>10.0.0.2:443'' = None \<and>
       chunk_key g d req = chunk_key g d resp \<and>
       (\<exists>w1 w2. handleTlsChunk g d resp w = Some (None, w1) \<and>
          handleTlsChunk g d req w1 = Some (None, w2) \<and>
          length (heap w2) = 1 \<and>
          map_option tcpID (client (heap w2 ! 0)) =
            Some \<lparr>SrcIP = ''10.0.0.2'', DstIP = ''10.0.0.1'',
                  SrcPort = ''443'', DstPort = ''5000''\<rparr> \<and>
          map_option tcpID (client (heap w2 ! 0)) \<noteq>
            Some \<lparr>SrcIP = ''10.0.0.1'', DstIP = ''10.0.0.2'',
                  SrcPort = ''5000'', DstPort = ''443''\<rparr>))"
proof -
  define g :: "tracerTlsChunk \<Rightarrow> addressPair" where "g = (\<lambda>c. if Flags c = 0 then scenario_quad else reverse_quad scenario_quad)"
  define d :: "tracerTlsChunk \<Rightarrow> bool" where "d = (\<lambda>c. Flags c = 0)"
  define req where "req = sample_chunk"
  define resp where "resp = req\<lparr>Flags := 1\<rparr>"
  define w where "w = new_world sample_poller"
  have h1: "g req = scenario_quad" by (simp add: g_def req_def)
  have h2: "d req" by (simp add: d_def req_def)
  have h3: "g resp = reverse_quad scenario_quad" by (simp add: g_def resp_def req_def)
  have h4: "\<not> d resp" by (simp add: d_def resp_def req_def)
  have h5: "streams w ''10.0.0.1:5000>10.0.0.2:443'' = None" by (simp add: w_def new_world_def)
  have l: "length (heap w) = 0" by (simp add: w_def new_world_def)
  note t = creation_identities_follow_first_chunk [OF h1 h2 h3 h4 h5, unfolded l]
  from t have k: "chunk_key g d req = chunk_key g d resp" by simp
  from t obtain w1 w2 where
    r: "handleTlsChunk g d resp w = Some (None, w1)"
       "handleTlsChunk g d req w1 = Some (None, w2)"
       "length (heap w2) = Suc 0"
       "map_option tcpID (client (heap w2 ! 0)) =
            Some \<lparr>SrcIP = ''10.0.0.2'', DstIP = ''10.0.0.1'',
                  SrcPort = ''443'', DstPort = ''5000''\<rparr>"
    by blast
  have ne: "map_option tcpID (client (heap w2 ! 0)) \<noteq>
            Some \<lparr>SrcIP = ''10.0.0.1'', DstIP = ''10.0.0.2'',
                  SrcPort = ''5000'', DstPort = ''443''\<rparr>"
    unfolding r(4) by simp
  have "\<exists>w1 w2. handleTlsChunk g d resp w = Some (None, w1) \<and>
          handleTlsChunk g d req w1 = Some (None, w2) \<and>
          length (heap w2) = 1 \<and>
          map_option tcpID (client (heap w2 ! 0)) =
            Some \<lparr>SrcIP = ''10.0.0.2'', DstIP = ''10.0.0.1'',
                  SrcPort = ''443'', DstPort = ''5000''\<rparr> \<and>
          map_option tcpID (client (heap w2 ! 0)) \<noteq>
            Some \<lparr>SrcIP = ''10.0.0.1'', DstIP = ''10.0.0.2'',
                  SrcPort = ''5000'', DstPort = ''443''\<rparr>"
    using r ne by auto
  with h1 h2 h3 h4 h5 k show ?thesis
    unfolding Let_def g_def [symmetric] d_def [symmetric] req_def [symmetric]
      resp_def [symmetric] w_def [symmetric]
    by blast
qed

subsection \<open>Teardown\<close>

lemma list_all_update:
  "list_all P xs \<Longrightarrow> P y \<Longrightarrow> list_all P (xs[a := y])"
  by (induction xs arbitrary: a) (auto split: nat.splits)

lemma handle_ids_allocated:
  assumes "handleTlsChunk g d c w = Some (r, w')" "ids_allocated w"
  shows "ids_allocated w'"
proof (cases "streams w (chunk_key g d c)")
  case None
  have "list_all (\<lambda>st. stream_id st \<le> streamId w + 1) (heap w)"
    using assms(2) by (auto simp: ids_allocated_def list_all_iff)
  then show ?thesis
    using assms(1) unfolding handle_new [OF None]
    by (auto simp: ids_allocated_def)
next
  case (Some a)
  show ?thesis
  proof (cases "a < length (heap w)")
    case True
    then obtain rd where rd: "getReader (d c) (heap w ! a) = Some rd"
      using assms(1) Some
      by (auto simp: handleTlsChunk_def chunk_key_def Let_def split: option.splits)
    have "stream_id (heap w ! a) \<le> streamId w"
      using assms(2) True by (simp add: ids_allocated_def list_all_length)
    then show ?thesis
      using assms unfolding handle_existing [OF Some True rd]
      by (auto simp: ids_allocated_def list_all_update)
  next
    case False
    then show ?thesis
      using assms(1) Some by (simp add: handleTlsChunk_def chunk_key_def Let_def)
  qed
qed

text \<open>
  Claim C4. A teardown notification for the key \<open>k\<close> removes the entry of \<open>k\<close> from the
  registry and changes nothing else: the other entries, the heap of streams (so the stream
  and its readers are still there), the shared table and the allocator are as before. In any
  state where \<open>k\<close> has no entry, a chunk that maps to \<open>k\<close> creates a new stream, at a new
  address, under an identity greater than the identity of every stream created before, and
  the streams created before are untouched.
\<close>

theorem teardown_removes_only_its_key:
  "(\<exists>w1. poll g d [CloseStream k] w = Blocked w1 \<and>
      streams w1 k = None \<and> (\<forall>k'. k' \<noteq> k \<longrightarrow> streams w1 k' = streams w k') \<and>
      heap w1 = heap w \<and> table w1 = table w \<and> streamId w1 = streamId w \<and>
      (ids_allocated w \<longrightarrow> ids_allocated w1)) \<and>
   (\<forall>v c. streams v k = None \<and> ids_allocated v \<and> chunk_key g d c = k \<longrightarrow>
      (\<exists>v'. handleTlsChunk g d c v = Some (None, v') \<and>
         streams v' k = Some (length (heap v)) \<and>
         take (length (heap v)) (heap v') = heap v \<and>
         length (heap v') = Suc (length (heap v)) \<and>
         stream_key (heap v' ! length (heap v)) = k \<and>
         stream_id (heap v' ! length (heap v)) = streamId v + 1 \<and>
         list_all (\<lambda>st. stream_id st < streamId v + 1) (heap v) \<and>
         table v' = (table v)(streamId v + 1 \<mapsto> length (heap v)) \<and>
         routed (d c) (heap v' ! length (heap v)) = [c] \<and>
         routed (\<not> d c) (heap v' ! length (heap v)) = []))"
proof (intro conjI allI impI)
  show "\<exists>w1. poll g d [CloseStream k] w = Blocked w1 \<and>
      streams w1 k = None \<and> (\<forall>k'. k' \<noteq> k \<longrightarrow> streams w1 k' = streams w k') \<and>
      heap w1 = heap w \<and> table w1 = table w \<and> streamId w1 = streamId w \<and>
      (ids_allocated w \<longrightarrow> ids_allocated w1)"
    by (simp add: ids_allocated_def)
next
  fix v c
  assume a: "streams v k = None \<and> ids_allocated v \<and> chunk_key g d c = k"
  then have None: "streams v (chunk_key g d c) = None" by simp
  have "list_all (\<lambda>st. stream_id st < streamId v + 1) (heap v)"
    using a by (auto simp: ids_allocated_def list_all_iff)
  then show "\<exists>v'. handleTlsChunk g d c v = Some (None, v') \<and>
         streams v' k = Some (length (heap v)) \<and>
         take (length (heap v)) (heap v') = heap v \<and>
         length (heap v') = Suc (length (heap v)) \<and>
         stream_key (heap v' ! length (heap v)) = k \<and>
         stream_id (heap v' ! length (heap v)) = streamId v + 1 \<and>
         list_all (\<lambda>st. stream_id st < streamId v + 1) (heap v) \<and>
         table v' = (table v)(streamId v + 1 \<mapsto> length (heap v)) \<and>
         routed (d c) (heap v' ! length (heap v)) = [c] \<and>
         routed (\<not> d c) (heap v' ! length (heap v)) = []"
    unfolding handle_new [OF None] using a by (simp add: routed_fresh)
qed

theorem teardown_removes_only_its_key_witness:
  "(let k = buildTlsKey scenario_quad True;
        w0 = new_world sample_poller;
        w = w0\<lparr>streams := [k \<mapsto> 0], heap := [fresh_stream scenario_quad k w0],
                streamId := 1, table := [1 \<mapsto> 0]\<rparr>;
        v = w\<lparr>streams := (streams w)(k := None)\<rparr>
    in ids_allocated w \<and> ''other'' \<noteq> k \<and>
       poll (\<lambda>_. scenario_quad) (\<lambda>_. True) [CloseStream k] w = Blocked v \<and>
       streams v ''other'' = streams w ''other'' \<and> ids_allocated v \<and>
       streams v k = None \<and> chunk_key (\<lambda>_. scenario_quad) (\<lambda>_. True) sample_chunk = k \<and>
       (\<exists>v'. handleTlsChunk (\<lambda>_. scenario_quad) (\<lambda>_. True) sample_chunk v = Some (None, v') \<and>
          streams v' k = Some 1 \<and> take 1 (heap v') = heap w \<and>
          stream_id (heap v' ! 1) = 2 \<and> stream_id (heap v' ! 0) = 1))"
proof -
  define k where "k = buildTlsKey scenario_quad True"
  define w0 where "w0 = new_world sample_poller"
  define w where "w = w0\<lparr>streams := [k \<mapsto> 0], heap := [fresh_stream scenario_quad k w0],
                streamId := 1, table := [1 \<mapsto> 0]\<rparr>"
  define v where "v = w\<lparr>streams := (streams w)(k := None)\<rparr>"
  have key: "k = ''10.0.0.1:5000>10.0.0.2:443''"
    by (simp add: k_def buildTlsKey_def format_simps)
  have h1: "ids_allocated w"
    by (simp add: ids_allocated_def w_def w0_def new_world_def)
  have h2: "''other'' \<noteq> k" by (simp add: key)
  have h3: "streams v k = None \<and> ids_allocated v \<and>
      chunk_key (\<lambda>_. scenario_quad) (\<lambda>_. True) sample_chunk = k"
    by (simp add: v_def ids_allocated_def w_def w0_def new_world_def chunk_key_def k_def)
  have lv: "length (heap v) = 1" "heap v = heap w" "streamId v = 1"
    by (simp_all add: v_def w_def)
  have id0: "stream_id (heap w ! 0) = 1"
    by (simp add: w_def w0_def new_world_def)
  note t = teardown_removes_only_its_key [of "\<lambda>_. scenario_quad" "\<lambda>_. True" k w]
  from t have p: "poll (\<lambda>_. scenario_quad) (\<lambda>_. True) [CloseStream k] w = Blocked v"
    by (simp add: v_def)
  from t h2 have o: "streams v ''other'' = streams w ''other''" by (simp add: v_def)
  from t h3 obtain v' where
    r: "handleTlsChunk (\<lambda>_. scenario_quad) (\<lambda>_. True) sample_chunk v = Some (None, v')"
      "streams v' k = Some (length (heap v))"
      "take (length (heap v)) (heap v') = heap v"
      "stream_id (heap v' ! length (heap v)) = streamId v + 1"
    by blast
  have "stream_id (heap v' ! 0) = 1"
  proof -
    have "heap v' ! 0 = take 1 (heap v') ! 0" by simp
    also have "\<dots> = heap w ! 0" using r(3) lv by simp
    finally show ?thesis using id0 by simp
  qed
  with r lv have "\<exists>v'. handleTlsChunk (\<lambda>_. scenario_quad) (\<lambda>_. True) sample_chunk v = Some (None, v') \<and>
          streams v' k = Some 1 \<and> take 1 (heap v') = heap w \<and>
          stream_id (heap v' ! 1) = 2 \<and> stream_id (heap v' ! 0) = 1"
    by auto
  with h1 h2 h3 p o show ?thesis
    unfolding Let_def k_def [symmetric] w0_def [symmetric] w_def [symmetric] v_def [symmetric]
    by blast
qed

subsection \<open>The ingestion loop\<close>

lemma loop_append:
  assumes "\<forall>r \<in> set pre. \<not> is_ReadError r"
  shows "pollChunksLoop (pre @ rs) st =
     pollChunksLoop rs
       (st\<lparr>sent := sent st @ List.map_filter chunk_of_record pre,
           ilog := ilog st @ concat (map log_of_record pre)\<rparr>)"
  using assms
proof (induction pre arbitrary: st)
  case Nil
  then show ?case by (simp add: List.map_filter_simps)
next
  case (Cons r pre)
  then have IH: "\<And>st. pollChunksLoop (pre @ rs) st =
     pollChunksLoop rs
       (st\<lparr>sent := sent st @ List.map_filter chunk_of_record pre,
           ilog := ilog st @ concat (map log_of_record pre)\<rparr>)"
    by simp
  show ?case
  proof (cases r)
    case (ReadRecord lost raw)
    show ?thesis
    proof (cases "lost \<noteq> 0")
      case True
      then show ?thesis using ReadRecord by (simp add: IH List.map_filter_simps)
    next
      case False
      then show ?thesis using ReadRecord
        by (cases "binary_Read raw") (simp_all add: IH List.map_filter_simps)
    qed
  next
    case (ReadError e)
    with Cons.prems show ?thesis by simp
  qed
qed

lemma same_handoff_ilog:
  "same_handoff st st' \<Longrightarrow> same_handoff (st\<lparr>ilog := a\<rparr>) (st'\<lparr>ilog := b\<rparr>)"
  by (simp add: same_handoff_def)

lemma same_handoff_sent:
  "same_handoff st st' \<Longrightarrow>
     same_handoff (st\<lparr>sent := sent st @ [c]\<rparr>) (st'\<lparr>sent := sent st' @ [c]\<rparr>)"
  by (simp add: same_handoff_def)

lemma same_handoff_closed:
  "same_handoff st st' \<Longrightarrow>
     same_handoff (st\<lparr>chunks_closed := True\<rparr>) (st'\<lparr>chunks_closed := True\<rparr>)"
  by (simp add: same_handoff_def)

lemma loop_same_handoff:
  assumes "same_handoff st st'"
  shows "rel_option same_handoff (run_state (pollChunksLoop rs st))
           (run_state (pollChunksLoop rs st')) \<and>
         has_returned (pollChunksLoop rs st) = has_returned (pollChunksLoop rs st')"
  using assms
proof (induction rs arbitrary: st st')
  case Nil
  then show ?case by simp
next
  case (Cons r rs)
  show ?case
  proof (cases r)
    case (ReadRecord lost raw)
    show ?thesis
    proof (cases "lost \<noteq> 0")
      case True
      from Cons.IH [OF same_handoff_ilog [OF Cons.prems]] show ?thesis
        using ReadRecord True by simp
    next
      case False
      show ?thesis
      proof (cases "binary_Read raw")
        case (Inl err)
        from Cons.IH [OF same_handoff_ilog [OF Cons.prems]] show ?thesis
          using ReadRecord False Inl by simp
      next
        case (Inr chunk)
        from Cons.IH [OF same_handoff_sent [OF Cons.prems]] show ?thesis
          using ReadRecord False Inr by simp
      qed
    qed
  next
    case (ReadError e)
    have "same_handoff (st\<lparr>chunks_closed := True\<rparr>) (st'\<lparr>chunks_closed := True\<rparr>)"
      by (rule same_handoff_closed [OF Cons.prems])
    then show ?thesis using ReadError by (simp add: Let_def same_handoff_def)
  qed
qed

text \<open>
  Claim C6. A record whose count of lost samples is not zero makes the ingestion task log
  the count and go on with the next read. Taking the record out of the sequence of reads
  changes neither the chunks sent on the handoff channel, nor whether the channel gets
  closed, nor whether the loop returns: the record produces no chunk and does not end the
  loop.
\<close>

theorem lost_samples_record_is_skipped:
  assumes "lost \<noteq> 0"
  shows "rel_option same_handoff
           (run_state (pollChunksLoop (pre @ ReadRecord lost raw # rs) st))
           (run_state (pollChunksLoop (pre @ rs) st)) \<and>
         has_returned (pollChunksLoop (pre @ ReadRecord lost raw # rs) st) =
           has_returned (pollChunksLoop (pre @ rs) st) \<and>
         pollChunksLoop (ReadRecord lost raw # rs) st =
           pollChunksLoop rs (st\<lparr>ilog := ilog st @
             [LogInfo (''Buffer is full, dropped '' @ FormatUint (unat lost) @ '' chunks'')]\<rparr>)"
proof -
  let ?st' = "\<lambda>st. st\<lparr>ilog := ilog st @
             [LogInfo (''Buffer is full, dropped '' @ FormatUint (unat lost) @ '' chunks'')]\<rparr>"
  have step: "\<And>st. pollChunksLoop (ReadRecord lost raw # rs) st = pollChunksLoop rs (?st' st)"
    using assms by simp
  have "rel_option same_handoff
           (run_state (pollChunksLoop (pre @ ReadRecord lost raw # rs) st))
           (run_state (pollChunksLoop (pre @ rs) st)) \<and>
         has_returned (pollChunksLoop (pre @ ReadRecord lost raw # rs) st) =
           has_returned (pollChunksLoop (pre @ rs) st)"
  proof (induction pre arbitrary: st)
    case Nil
    have "same_handoff (?st' st) st" by (simp add: same_handoff_def)
    from loop_same_handoff [OF this, of rs] show ?case by (simp only: append_Nil step)
  next
    case (Cons r pre)
    show ?case
    proof (cases r)
      case (ReadRecord l b)
      show ?thesis
      proof (cases "l \<noteq> 0")
        case True
        then show ?thesis using ReadRecord Cons.IH by simp
      next
        case False
        then show ?thesis using ReadRecord Cons.IH
          by (cases "binary_Read b") simp_all
      qed
    next
      case (ReadError e)
      then show ?thesis by (simp add: Let_def same_handoff_def)
    qed
  qed
  with step show ?thesis by blast
qed


theorem lost_samples_record_is_skipped_witness:
  "(3 :: 64 word) \<noteq> 0 \<and>
   has_returned (pollChunksLoop ([ReadRecord 0 []] @ ReadRecord 3 [] # [ReadError ErrClosed])
     \<lparr>sent = [], chunks_closed = False, ilog = []\<rparr>) \<and>
   pollChunksLoop (ReadRecord 3 [] # []) \<lparr>sent = [], chunks_closed = False, ilog = []\<rparr> =
     Blocked \<lparr>sent = [], chunks_closed = False,
              ilog = [LogInfo ''Buffer is full, dropped 3 chunks'']\<rparr>"
proof -
  have h: "(3 :: 64 word) \<noteq> 0" by simp
  note t = lost_samples_record_is_skipped [OF h, of "[ReadRecord 0 []]" "[]" "[ReadError ErrClosed]"
      "\<lparr>sent = [], chunks_closed = False, ilog = []\<rparr>"]
  note u = lost_samples_record_is_skipped [OF h, of "[]" "[]" "[]"
      "\<lparr>sent = [], chunks_closed = False, ilog = []\<rparr>"]
  have "has_returned (pollChunksLoop ([ReadRecord 0 []] @ [ReadError ErrClosed])
     \<lparr>sent = [], chunks_closed = False, ilog = []\<rparr>)"
    by (simp add: binary_Read_def)
  with t have a: "has_returned (pollChunksLoop ([ReadRecord 0 []] @ ReadRecord 3 [] # [ReadError ErrClosed])
     \<lparr>sent = [], chunks_closed = False, ilog = []\<rparr>)" by blast
  from u have "pollChunksLoop (ReadRecord 3 [] # []) \<lparr>sent = [], chunks_closed = False, ilog = []\<rparr> =
     Blocked \<lparr>sent = [], chunks_closed = False,
              ilog = [LogInfo ''Buffer is full, dropped 3 chunks'']\<rparr>"
    by (simp add: format_simps)
  with h a show ?thesis by blast
qed


subsection \<open>Shutdown\<close>

lemma poll_until_closed:
  assumes "registry_ok w" "ChunksClosed \<notin> set pre"
  shows "\<exists>w'. poll g d pre w = Blocked w' \<and>
           poll g d (pre @ ChunksClosed # post) w = Returned w'"
  using assms
proof (induction pre arbitrary: w)
  case Nil
  then show ?case by simp
next
  case (Cons e pre)
  then have rest: "ChunksClosed \<notin> set pre" by simp
  show ?case
  proof (cases e)
    case (ChunkReceived c)
    from handle_ok [OF Cons.prems(1), of g d c] obtain w1 where
      h: "handleTlsChunk g d c w = Some (None, w1)" and ok1: "registry_ok w1" by blast
    from Cons.IH [OF ok1 rest] show ?thesis using h ChunkReceived by simp
  next
    case ChunksClosed
    with Cons.prems show ?thesis by simp
  next
    case (CloseStream k)
    from Cons.IH [OF registry_ok_delete [OF Cons.prems(1), of k] rest] show ?thesis
      using CloseStream by simp
  qed
qed

lemma split_at_closed:
  assumes "ChunksClosed \<in> set es"
  shows "\<exists>post. es = takeWhile (\<lambda>e. e \<noteq> ChunksClosed) es @ ChunksClosed # post \<and>
           ChunksClosed \<notin> set (takeWhile (\<lambda>e. e \<noteq> ChunksClosed) es)"
proof -
  from split_list_first [OF assms] obtain ys zs where
    es: "es = ys @ ChunksClosed # zs" and ys: "ChunksClosed \<notin> set ys" by blast
  have "takeWhile (\<lambda>e. e \<noteq> ChunksClosed) (ys @ ChunksClosed # zs) = ys"
    using ys by (induction ys) auto
  then show ?thesis using es ys by auto
qed

lemma perf_blocked:
  assumes "\<forall>r \<in> set pre. \<not> is_ReadError r"
  shows "pollChunksPerfBuffer pre =
     Blocked \<lparr>sent = List.map_filter chunk_of_record pre, chunks_closed = False,
       ilog = LogInfo ''Start polling for tls events'' # concat (map log_of_record pre)\<rparr>"
  unfolding pollChunksPerfBuffer_def
  by (subst loop_append [OF assms, of "[]", simplified]) simp

lemma perf_error:
  assumes "\<forall>r \<in> set pre. \<not> is_ReadError r"
  shows "pollChunksPerfBuffer (pre @ ReadError err # post) =
     Returned \<lparr>sent = List.map_filter chunk_of_record pre, chunks_closed = True,
       ilog = LogInfo ''Start polling for tls events'' # concat (map log_of_record pre) @
         (if is_ErrClosed err then []
          else [LogError ''Error reading chunks from tls perf, aborting TLS! '' err])\<rparr>"
  unfolding pollChunksPerfBuffer_def
  by (subst loop_append [OF assms]) (simp add: Let_def)

text \<open>
  Claim C5. When a read of the ring-buffer reader returns an error, the ingestion task
  closes the handoff channel and returns, having sent the chunks of the records read before
  and nothing more: on the closed-reader error (or an error that wraps it) it logs nothing,
  on any other error it logs that error. Whatever the order in which the demultiplexer is
  served its two channels, as long as it receives from the handoff channel what the task
  sent, it returns when it receives the closing of the channel, in the state it reached on
  the events before: the events after the closing change nothing.
\<close>

theorem reader_error_shuts_both_tasks_down:
  assumes "\<forall>r \<in> set pre. \<not> is_ReadError r" and "registry_ok w"
  shows "\<exists>st0 st.
           pollChunksPerfBuffer pre = Blocked st0 \<and>
           pollChunksPerfBuffer (pre @ ReadError err # post) = Returned st \<and>
           chunks_closed st \<and> sent st = sent st0 \<and>
           ilog st = ilog st0 @
             (if is_ErrClosed err then []
              else [LogError ''Error reading chunks from tls perf, aborting TLS! '' err]) \<and>
           (\<forall>es. filter is_handoff es = handoff_events st \<longrightarrow>
              (\<exists>w'. poll g d (takeWhile (\<lambda>e. e \<noteq> ChunksClosed) es) w = Blocked w' \<and>
                    poll g d es w = Returned w'))"
proof -
  define st where "st = \<lparr>sent = List.map_filter chunk_of_record pre, chunks_closed = True,
       ilog = LogInfo ''Start polling for tls events'' # concat (map log_of_record pre) @
         (if is_ErrClosed err then []
          else [LogError ''Error reading chunks from tls perf, aborting TLS! '' err])\<rparr>"
  have c: "\<exists>w'. poll g d (takeWhile (\<lambda>e. e \<noteq> ChunksClosed) es) w = Blocked w' \<and>
                    poll g d es w = Returned w'"
    if f: "filter is_handoff es = handoff_events st" for es
  proof -
    have "ChunksClosed \<in> set (filter is_handoff es)"
      unfolding f by (simp add: handoff_events_def st_def)
    then have "ChunksClosed \<in> set es" by simp
    from split_at_closed [OF this] obtain post' where
      es: "es = takeWhile (\<lambda>e. e \<noteq> ChunksClosed) es @ ChunksClosed # post'" and
      nc: "ChunksClosed \<notin> set (takeWhile (\<lambda>e. e \<noteq> ChunksClosed) es)" by blast
    from poll_until_closed [OF assms(2) nc, of g d post'] show ?thesis
      using es by simp
  qed
  have "pollChunksPerfBuffer (pre @ ReadError err # post) = Returned st"
    unfolding st_def by (rule perf_error [OF assms(1)])
  moreover have "chunks_closed st" by (simp add: st_def)
  moreover note perf_blocked [OF assms(1)]
  moreover have "sent st = List.map_filter chunk_of_record pre" by (simp add: st_def)
  moreover have "ilog st =
      (LogInfo ''Start polling for tls events'' # concat (map log_of_record pre)) @
         (if is_ErrClosed err then []
          else [LogError ''Error reading chunks from tls perf, aborting TLS! '' err])"
    by (simp add: st_def)
  ultimately show ?thesis using c by simp
qed

theorem reader_error_shuts_both_tasks_down_witness:
  "\<not> is_ReadError (ReadRecord 2 []) \<and> \<not> is_ReadError (ReadRecord 0 []) \<and>
   registry_ok (new_world sample_poller) \<and>
   (\<exists>st. pollChunksPerfBuffer ([ReadRecord 2 [], ReadRecord 0 []] @
            ReadError (Wrapped ''perf ringbuffer'' ErrClosed) # [ReadRecord 0 []]) = Returned st \<and>
      chunks_closed st \<and> sent st = [] \<and>
      ilog st = [LogInfo ''Start polling for tls events'',
                 LogInfo ''Buffer is full, dropped 2 chunks'',
                 LogError ''Error parsing chunk '' EOF] \<and>
      filter is_handoff [CloseStream ''a'', ChunksClosed, CloseStream ''b''] = handoff_events st \<and>
      (\<exists>w'. poll (\<lambda>_. scenario_quad) (\<lambda>_. True)
               [CloseStream ''a'', ChunksClosed, CloseStream ''b''] (new_world sample_poller)
             = Returned w'))"
proof -
  let ?pre = "[ReadRecord 2 [], ReadRecord 0 []]"
  have h1: "\<forall>r \<in> set ?pre. \<not> is_ReadError r" by simp
  have h2: "registry_ok (new_world sample_poller)"
    by (simp add: registry_ok_def new_world_def)
  from reader_error_shuts_both_tasks_down [OF h1 h2,
      of "Wrapped ''perf ringbuffer'' ErrClosed" "[ReadRecord 0 []]"
         "\<lambda>_. scenario_quad" "\<lambda>_. True"]
  obtain st0 st where
    r: "pollChunksPerfBuffer ?pre = Blocked st0"
       "pollChunksPerfBuffer (?pre @ ReadError (Wrapped ''perf ringbuffer'' ErrClosed) #
          [ReadRecord 0 []]) = Returned st"
       "chunks_closed st" "sent st = sent st0"
       "ilog st = ilog st0 @
             (if is_ErrClosed (Wrapped ''perf ringbuffer'' ErrClosed) then []
              else [LogError ''Error reading chunks from tls perf, aborting TLS! ''
                      (Wrapped ''perf ringbuffer'' ErrClosed)])"
       "\<And>es. filter is_handoff es = handoff_events st \<Longrightarrow>
              (\<exists>w'. poll (\<lambda>_. scenario_quad) (\<lambda>_. True)
                       (takeWhile (\<lambda>e. e \<noteq> ChunksClosed) es) (new_world sample_poller) = Blocked w' \<and>
                    poll (\<lambda>_. scenario_quad) (\<lambda>_. True) es (new_world sample_poller) = Returned w')"
    by blast
  have st0: "st0 = \<lparr>sent = [], chunks_closed = False,
      ilog = [LogInfo ''Start polling for tls events'',
                 LogInfo ''Buffer is full, dropped 2 chunks'',
                 LogError ''Error parsing chunk '' EOF]\<rparr>"
    using r(1) by (simp add: pollChunksPerfBuffer_def binary_Read_def format_simps)
  have s: "sent st = []" using r(4) st0 by simp
  have l: "ilog st = [LogInfo ''Start polling for tls events'',
                 LogInfo ''Buffer is full, dropped 2 chunks'',
                 LogError ''Error parsing chunk '' EOF]"
    using r(5) st0 by simp
  have f: "filter is_handoff [CloseStream ''a'', ChunksClosed, CloseStream ''b''] = handoff_events st"
    using s r(3) by (simp add: handoff_events_def)
  from r(6) [OF f] have "\<exists>w'. poll (\<lambda>_. scenario_quad) (\<lambda>_. True)
               [CloseStream ''a'', ChunksClosed, CloseStream ''b''] (new_world sample_poller)
             = Returned w'" by blast
  with h2 r(2,3) s l f show ?thesis by simp
qed


subsection \<open>The eviction callback\<close>

lemma smod_eq_0_iff_dvd: "(i::int) smod m = 0 \<longleftrightarrow> m dvd i"
proof -
  have "i smod m = sgn i * (\<bar>i\<bar> mod \<bar>m\<bar>)" by (simp add: signed_modulo_int_def)
  then have "i smod m = 0 \<longleftrightarrow> i = 0 \<or> \<bar>i\<bar> mod \<bar>m\<bar> = 0" by (simp add: sgn_eq_0_iff)
  also have "\<dots> \<longleftrightarrow> \<bar>m\<bar> dvd \<bar>i\<bar>" by (auto simp: dvd_eq_mod_eq_0)
  also have "\<dots> \<longleftrightarrow> m dvd i" by simp
  finally show ?thesis .
qed

lemma callback_eq:
  "fdCacheEvictCallback key val w =
     w\<lparr>evictedCounter := evictedCounter w + 1,
       log := log w @
         (if 1000000 dvd sint (evictedCounter w + 1)
          then [LogInfo (''Tls fdCache evicted '' @ FormatInt (sint (evictedCounter w + 1)) @
                         '' items'')]
          else [])\<rparr>"
  by (simp add: fdCacheEvictCallback_def Let_def smod_eq_0_iff_dvd)

lemma callback_counter_iter:
  "evictedCounter ((fdCacheEvictCallback key val ^^ n) w) = evictedCounter w + of_nat n"
proof (induction n)
  case 0
  then show ?case by simp
next
  case (Suc n)
  have "evictedCounter (fdCacheEvictCallback key val ((fdCacheEvictCallback key val ^^ n) w)) =
      evictedCounter ((fdCacheEvictCallback key val ^^ n) w) + 1"
    by (subst callback_eq) simp
  then show ?case using Suc by simp
qed

lemma sint_of_nat_small: "n < 2 ^ 63 \<Longrightarrow> sint (of_nat n :: 64 word) = int n"
  by (simp add: signed_of_nat signed_take_bit_int_eq_self)

lemma callback_step_quiet:
  assumes "evictedCounter v = of_nat n" "Suc n < 1000000"
  shows "log (fdCacheEvictCallback key val v) = log v"
proof -
  have c: "evictedCounter v + 1 = of_nat (Suc n)" using assms(1) by simp
  have s: "sint (of_nat (Suc n) :: 64 word) = int (Suc n)"
    using assms(2) by (intro sint_of_nat_small) simp
  have "\<not> 1000000 dvd int (Suc n)"
  proof
    assume "1000000 dvd int (Suc n)"
    then have "(1000000::int) \<le> int (Suc n)" by (intro zdvd_imp_le) simp_all
    with assms(2) show False by simp
  qed
  then have "\<not> 1000000 dvd sint (evictedCounter v + 1)" unfolding c s .
  then show ?thesis by (subst callback_eq) simp
qed

lemma callback_quiet:
  assumes "evictedCounter w = 0" "n < 1000000"
  shows "log ((fdCacheEvictCallback key val ^^ n) w) = log w"
  using assms(2)
proof (induction n)
  case 0
  then show ?case by simp
next
  case (Suc n)
  then have IH: "log ((fdCacheEvictCallback key val ^^ n) w) = log w" by simp
  have c: "evictedCounter ((fdCacheEvictCallback key val ^^ n) w) = of_nat n"
    by (simp add: callback_counter_iter assms(1))
  have "log (fdCacheEvictCallback key val ((fdCacheEvictCallback key val ^^ n) w)) =
      log ((fdCacheEvictCallback key val ^^ n) w)"
    by (rule callback_step_quiet [OF c Suc.prems])
  then show ?case using IH by simp
qed

lemma callback_millionth:
  assumes "evictedCounter v = 999999"
  shows "log (fdCacheEvictCallback key val v) =
     log v @ [LogInfo ''Tls fdCache evicted 1000000 items'']"
proof -
  have c: "evictedCounter v + 1 = 1000000" using assms by simp
  have f: "FormatInt 1000000 = ''1000000''" by (simp add: FormatInt_def format_simps)
  show ?thesis by (subst callback_eq) (simp add: c f)
qed

text \<open>
  Claim C7. An eviction adds exactly one to the eviction counter, and it logs the diagnostic
  line exactly when the counter it has just incremented is a multiple of 1,000,000. Counting
  from zero, none of the first 999,999 evictions logs anything and the 1,000,000th logs the
  line with the count 1000000.
\<close>

theorem eviction_counter_and_throttled_log:
  "evictedCounter (fdCacheEvictCallback key val w) = evictedCounter w + 1 \<and>
   log (fdCacheEvictCallback key val w) =
     log w @
       (if 1000000 dvd sint (evictedCounter w + 1)
        then [LogInfo (''Tls fdCache evicted '' @ FormatInt (sint (evictedCounter w + 1)) @
                       '' items'')]
        else []) \<and>
   (evictedCounter w = 0 \<longrightarrow>
      (\<forall>n. n < 1000000 \<longrightarrow> log ((fdCacheEvictCallback key val ^^ n) w) = log w) \<and>
      evictedCounter ((fdCacheEvictCallback key val ^^ 1000000) w) = 1000000 \<and>
      log ((fdCacheEvictCallback key val ^^ 1000000) w) =
        log w @ [LogInfo ''Tls fdCache evicted 1000000 items''])"
proof (intro conjI impI allI)
  show "evictedCounter (fdCacheEvictCallback key val w) = evictedCounter w + 1"
    by (subst callback_eq) simp
  show "log (fdCacheEvictCallback key val w) =
     log w @
       (if 1000000 dvd sint (evictedCounter w + 1)
        then [LogInfo (''Tls fdCache evicted '' @ FormatInt (sint (evictedCounter w + 1)) @
                       '' items'')]
        else [])"
    by (subst callback_eq) simp
next
  fix n :: nat
  assume "evictedCounter w = 0" "n < 1000000"
  then show "log ((fdCacheEvictCallback key val ^^ n) w) = log w"
    by (rule callback_quiet)
next
  assume z: "evictedCounter w = 0"
  show "evictedCounter ((fdCacheEvictCallback key val ^^ 1000000) w) = 1000000"
    unfolding callback_counter_iter z by simp
next
  assume z: "evictedCounter w = 0"
  define v where "v = (fdCacheEvictCallback key val ^^ 999999) w"
  have q: "log v = log w"
    unfolding v_def by (rule callback_quiet [OF z]) simp
  have c: "evictedCounter v = 999999"
    unfolding v_def callback_counter_iter z by simp
  have n: "(1000000::nat) = Suc 999999" by simp
  have "(fdCacheEvictCallback key val ^^ 1000000) w = fdCacheEvictCallback key val v"
    unfolding v_def n by (simp only: funpow.simps o_apply)
  then show "log ((fdCacheEvictCallback key val ^^ 1000000) w) =
        log w @ [LogInfo ''Tls fdCache evicted 1000000 items'']"
    using callback_millionth [OF c, of key val] q by simp
qed

theorem eviction_counter_and_throttled_log_witness:
  "evictedCounter (new_world sample_poller) = 0 \<and> (2::nat) < 1000000 \<and>
   log ((fdCacheEvictCallback ''k'' scenario_quad ^^ 2) (new_world sample_poller)) = [] \<and>
   log ((fdCacheEvictCallback ''k'' scenario_quad ^^ 1000000) (new_world sample_poller)) =
        [LogInfo ''Tls fdCache evicted 1000000 items'']"
proof -
  have z: "evictedCounter (new_world sample_poller) = 0" by (simp add: new_world_def)
  have l: "log (new_world sample_poller) = []" by (simp add: new_world_def)
  have n: "(2::nat) < 1000000" by simp
  note t = eviction_counter_and_throttled_log [of "''k''" scenario_quad "new_world sample_poller"]
  from t z n have a: "log ((fdCacheEvictCallback ''k'' scenario_quad ^^ 2) (new_world sample_poller)) =
      log (new_world sample_poller)" by blast
  from t z have b: "log ((fdCacheEvictCallback ''k'' scenario_quad ^^ 1000000) (new_world sample_poller)) =
        log (new_world sample_poller) @ [LogInfo ''Tls fdCache evicted 1000000 items'']"
    by blast
  from a b z l n show ?thesis by (simp only: append_Nil simp_thms)
qed


subsection \<open>The cache\<close>

lemma LRU_Add_fresh:
  assumes "k \<notin> fst ` set (lru_items c)" "int (length (lru_items c)) \<le> lru_size c"
  shows "LRU_Add k v c =
     (c\<lparr>lru_items := take (nat (lru_size c)) ((k, v) # lru_items c)\<rparr>,
      if int (length (lru_items c)) = lru_size c then Some (last ((k, v) # lru_items c))
      else None)"
proof (cases "int (length (lru_items c)) = lru_size c")
  case True
  then have n: "nat (lru_size c) = length (lru_items c)" by simp
  have "butlast ((k, v) # lru_items c) = take (length (lru_items c)) ((k, v) # lru_items c)"
    by (simp add: butlast_conv_take)
  then show ?thesis using assms(1) True n by (simp add: LRU_Add_def Let_def)
next
  case False
  with assms(2) have "Suc (length (lru_items c)) \<le> nat (lru_size c)" by simp
  then have "take (nat (lru_size c)) ((k, v) # lru_items c) = (k, v) # lru_items c"
    by simp
  then show ?thesis using assms False by (simp add: LRU_Add_def Let_def)
qed

lemma fdCache_Add_fresh:
  assumes "fdCache w = Some c" "k \<notin> fst ` set (lru_items c)"
    "int (length (lru_items c)) \<le> lru_size c"
  shows "\<exists>w1. fdCache_Add k v w = Some w1 \<and>
           fdCache w1 = Some (c\<lparr>lru_items := take (nat (lru_size c)) ((k, v) # lru_items c)\<rparr>) \<and>
           evictedCounter w1 =
             evictedCounter w + (if int (length (lru_items c)) = lru_size c then 1 else 0)"
proof (cases "int (length (lru_items c)) = lru_size c")
  case True
  obtain ek ev where l: "last ((k, v) # lru_items c) = (ek, ev)"
    by (cases "last ((k, v) # lru_items c)")
  show ?thesis
    unfolding fdCache_Add_def assms(1) option.case LRU_Add_fresh [OF assms(2,3)]
    using True l by (simp add: callback_eq Let_def)
next
  case False
  show ?thesis
    unfolding fdCache_Add_def assms(1) option.case LRU_Add_fresh [OF assms(2,3)]
    using False by simp
qed

lemma take_append_take: "take n (xs @ take n ys) = take n (xs @ ys)"
  by (simp add: min_def)

lemma fdCache_AddAll_distinct:
  assumes "fdCache w = Some c" "distinct (map fst kvs)"
    "fst ` set kvs \<inter> fst ` set (lru_items c) = {}"
    "int (length (lru_items c)) \<le> lru_size c"
  shows "\<exists>w'. fdCache_AddAll kvs w = Some w' \<and>
           fdCache w' = Some (c\<lparr>lru_items := take (nat (lru_size c)) (rev kvs @ lru_items c)\<rparr>) \<and>
           evictedCounter w' =
             evictedCounter w + of_nat (length kvs + length (lru_items c) - nat (lru_size c))"
  using assms
proof (induction kvs arbitrary: w c)
  case Nil
  then show ?case by simp
next
  case (Cons kv kvs)
  obtain k v where kv: "kv = (k, v)" by (cases kv)
  let ?n = "nat (lru_size c)"
  let ?c1 = "c\<lparr>lru_items := take ?n ((k, v) # lru_items c)\<rparr>"
  have fresh: "k \<notin> fst ` set (lru_items c)" using Cons.prems(3) kv by auto
  from fdCache_Add_fresh [OF Cons.prems(1) fresh Cons.prems(4), of v] obtain w1 where
    a: "fdCache_Add k v w = Some w1" and c1: "fdCache w1 = Some ?c1"
    and e1: "evictedCounter w1 =
       evictedCounter w + (if int (length (lru_items c)) = lru_size c then 1 else 0)"
    by blast
  have d: "distinct (map fst kvs)" using Cons.prems(2) by simp
  have "set (take ?n ((k, v) # lru_items c)) \<subseteq> set ((k, v) # lru_items c)"
    by (rule set_take_subset)
  then have "fst ` set (lru_items ?c1) \<subseteq> insert k (fst ` set (lru_items c))"
    by auto
  moreover have "k \<notin> fst ` set kvs" using Cons.prems(2) kv by auto
  moreover have "fst ` set kvs \<inter> fst ` set (lru_items c) = {}"
    using Cons.prems(3) by auto
  ultimately have dj: "fst ` set kvs \<inter> fst ` set (lru_items ?c1) = {}"
    by blast
  have le: "int (length (lru_items ?c1)) \<le> lru_size ?c1"
    using Cons.prems(4) by simp
  from Cons.IH [OF c1 d dj le] obtain w' where
    r: "fdCache_AddAll kvs w1 = Some w'"
    and c': "fdCache w' =
       Some (?c1\<lparr>lru_items := take (nat (lru_size ?c1)) (rev kvs @ lru_items ?c1)\<rparr>)"
    and e': "evictedCounter w' =
       evictedCounter w1 + of_nat (length kvs + length (lru_items ?c1) - nat (lru_size ?c1))"
    by blast
  have run: "fdCache_AddAll (kv # kvs) w = Some w'" using a r kv by simp
  have items: "fdCache w' =
      Some (c\<lparr>lru_items := take ?n (rev (kv # kvs) @ lru_items c)\<rparr>)"
    using c' kv by (simp add: take_append_take)
  have len: "length (lru_items c) \<le> ?n" using Cons.prems(4) by simp
  have cnt: "evictedCounter w' =
      evictedCounter w + of_nat (length (kv # kvs) + length (lru_items c) - ?n)"
  proof (cases "int (length (lru_items c)) = lru_size c")
    case True
    then have "length (lru_items c) = ?n" by simp
    then show ?thesis using e' e1 True by (simp add: min_def)
  next
    case False
    then have lt: "length (lru_items c) < ?n" using Cons.prems(4) by linarith
    then have "length kvs + Suc (length (lru_items c)) - ?n =
        length (kv # kvs) + length (lru_items c) - ?n" by simp
    then show ?thesis using e' e1 False lt by (simp add: min_def)
  qed
  from run items cnt show ?case by blast
qed

lemma LRU_Add_bound:
  assumes "int (length (lru_items c)) \<le> lru_size c"
  shows "lru_size (fst (LRU_Add k v c)) = lru_size c \<and>
         int (length (lru_items (fst (LRU_Add k v c)))) \<le> lru_size c"
proof (cases "k \<in> fst ` set (lru_items c)")
  case True
  then obtain e where e: "e \<in> set (lru_items c)" "\<not> fst e \<noteq> k" by auto
  have "length (filter (\<lambda>e. fst e \<noteq> k) (lru_items c)) < length (lru_items c)"
    using length_filter_less [of e "lru_items c" "\<lambda>e. fst e \<noteq> k"] e by simp
  then show ?thesis using True assms by (simp add: LRU_Add_def)
next
  case False
  show ?thesis using assms by (simp add: LRU_Add_fresh [OF False assms])
qed

lemma fdCache_Add_bound:
  assumes "fdCache w = Some c" "int (length (lru_items c)) \<le> lru_size c"
  shows "\<exists>w1 c1. fdCache_Add k v w = Some w1 \<and> fdCache w1 = Some c1 \<and>
           lru_size c1 = lru_size c \<and> int (length (lru_items c1)) \<le> lru_size c"
proof -
  obtain c1 ev where a: "LRU_Add k v c = (c1, ev)" by (cases "LRU_Add k v c")
  from LRU_Add_bound [OF assms(2), of k v] a
  have b: "lru_size c1 = lru_size c" "int (length (lru_items c1)) \<le> lru_size c" by simp_all
  show ?thesis
  proof (cases ev)
    case None
    then show ?thesis using a b by (simp add: fdCache_Add_def assms(1))
  next
    case (Some kv)
    obtain ek ev' where "kv = (ek, ev')" by (cases kv)
    then show ?thesis using a b Some
      by (simp add: fdCache_Add_def assms(1) callback_eq Let_def)
  qed
qed

lemma fdCache_AddAll_bound:
  assumes "fdCache w = Some c" "int (length (lru_items c)) \<le> lru_size c"
  shows "\<exists>w' c'. fdCache_AddAll kvs w = Some w' \<and> fdCache w' = Some c' \<and>
           lru_size c' = lru_size c \<and> int (length (lru_items c')) \<le> lru_size c"
  using assms
proof (induction kvs arbitrary: w c)
  case Nil
  then show ?case by simp
next
  case (Cons kv kvs)
  obtain k v where kv: "kv = (k, v)" by (cases kv)
  from fdCache_Add_bound [OF Cons.prems, of k v] obtain w1 c1 where
    a: "fdCache_Add k v w = Some w1" "fdCache w1 = Some c1"
       "lru_size c1 = lru_size c" "int (length (lru_items c1)) \<le> lru_size c" by blast
  from a(3,4) have "int (length (lru_items c1)) \<le> lru_size c1" by simp
  from Cons.IH [OF a(2) this] show ?case using a(1,3) kv by simp
qed

text \<open>
  Claim C8. The capacity of the poller's cache is fixed at construction as
  500000 / 40 = 12500. For a cache of capacity \<open>C\<close> that starts empty, inserting distinct
  keys, at most \<open>C\<close> of them, evicts nothing (the eviction counter is unchanged and every
  entry is kept), and inserting \<open>C + 1\<close> distinct keys evicts exactly one entry, the least
  recently used one, which is the first inserted, and adds exactly one to the eviction
  counter, leaving \<open>C\<close> entries. Whatever is inserted, into a cache within its capacity, the
  cache stays within its capacity.
\<close>

theorem cache_never_exceeds_capacity:
  "fdCacheMaxItems = 12500 \<and>
   newTlsPoller tracer procfs_path =
     Inr \<lparr>tls = tracer, streams = Map.empty, procfs = procfs_path,
          fdCache = Some \<lparr>lru_size = 12500, lru_items = []\<rparr>, evictedCounter = 0\<rparr> \<and>
   (fdCache w = Some c \<and> lru_items c = [] \<and> 0 < lru_size c \<and> distinct (map fst kvs) \<longrightarrow>
      (\<exists>w'. fdCache_AddAll kvs w = Some w' \<and> lru_size (cache_of w') = lru_size c \<and>
         (int (length kvs) \<le> lru_size c \<longrightarrow>
            evictedCounter w' = evictedCounter w \<and> lru_items (cache_of w') = rev kvs) \<and>
         (int (length kvs) = lru_size c + 1 \<longrightarrow>
            evictedCounter w' = evictedCounter w + 1 \<and>
            lru_items (cache_of w') = rev (tl kvs) \<and>
            int (length (lru_items (cache_of w'))) = lru_size c))) \<and>
   (fdCache w = Some c \<and> int (length (lru_items c)) \<le> lru_size c \<longrightarrow>
      (\<exists>w'. fdCache_AddAll kvs w = Some w' \<and> lru_size (cache_of w') = lru_size c \<and>
         int (length (lru_items (cache_of w'))) \<le> lru_size c))"
proof (intro conjI impI)
  show "fdCacheMaxItems = 12500" by (rule fdCacheMaxItems_value)
  show "newTlsPoller tracer procfs_path =
     Inr \<lparr>tls = tracer, streams = Map.empty, procfs = procfs_path,
          fdCache = Some \<lparr>lru_size = 12500, lru_items = []\<rparr>, evictedCounter = 0\<rparr>"
    by (simp add: newTlsPoller_def NewLRU_def fdCacheMaxItems_value)
next
  assume a: "fdCache w = Some c \<and> lru_items c = [] \<and> 0 < lru_size c \<and> distinct (map fst kvs)"
  then have h: "fdCache w = Some c" "distinct (map fst kvs)"
    "fst ` set kvs \<inter> fst ` set (lru_items c) = {}" "int (length (lru_items c)) \<le> lru_size c"
    by simp_all
  from fdCache_AddAll_distinct [OF h] a obtain w' where
    r: "fdCache_AddAll kvs w = Some w'"
       "fdCache w' = Some (c\<lparr>lru_items := take (nat (lru_size c)) (rev kvs)\<rparr>)"
       "evictedCounter w' = evictedCounter w + of_nat (length kvs - nat (lru_size c))"
    by auto
  have s: "lru_size (cache_of w') = lru_size c"
    "lru_items (cache_of w') = take (nat (lru_size c)) (rev kvs)"
    using r(2) by (simp_all add: cache_of_def)
  have le: "evictedCounter w' = evictedCounter w \<and> lru_items (cache_of w') = rev kvs"
    if "int (length kvs) \<le> lru_size c"
    using that r(3) s(2) by simp
  have eq: "evictedCounter w' = evictedCounter w + 1 \<and>
            lru_items (cache_of w') = rev (tl kvs) \<and>
            int (length (lru_items (cache_of w'))) = lru_size c"
    if l: "int (length kvs) = lru_size c + 1"
  proof -
    from l a have "int (length kvs) = int (Suc (nat (lru_size c)))" by simp
    then have n: "length kvs = Suc (nat (lru_size c))" by (simp only: of_nat_eq_iff)
    then obtain kv kvs' where k: "kvs = kv # kvs'" by (cases kvs) auto
    with n have n': "length kvs' = nat (lru_size c)" by simp
    have "take (nat (lru_size c)) (rev kvs) = rev kvs'"
      using k n' by simp
    then show ?thesis using r(3) s(2) n k n' a by simp
  qed
  from r(1) s(1) le eq show "\<exists>w'. fdCache_AddAll kvs w = Some w' \<and> lru_size (cache_of w') = lru_size c \<and>
         (int (length kvs) \<le> lru_size c \<longrightarrow>
            evictedCounter w' = evictedCounter w \<and> lru_items (cache_of w') = rev kvs) \<and>
         (int (length kvs) = lru_size c + 1 \<longrightarrow>
            evictedCounter w' = evictedCounter w + 1 \<and>
            lru_items (cache_of w') = rev (tl kvs) \<and>
            int (length (lru_items (cache_of w'))) = lru_size c)"
    by blast
next
  assume "fdCache w = Some c \<and> int (length (lru_items c)) \<le> lru_size c"
  then have h: "fdCache w = Some c" "int (length (lru_items c)) \<le> lru_size c" by simp_all
  from fdCache_AddAll_bound [OF h, of kvs] show
    "\<exists>w'. fdCache_AddAll kvs w = Some w' \<and> lru_size (cache_of w') = lru_size c \<and>
         int (length (lru_items (cache_of w'))) \<le> lru_size c"
    by (auto simp: cache_of_def)
qed

theorem cache_never_exceeds_capacity_witness:
  "(let c = \<lparr>lru_size = 2, lru_items = []\<rparr>;
        w = (new_world sample_poller)\<lparr>fdCache := Some c\<rparr>;
        kvs = [(''a'', scenario_quad), (''b'', scenario_quad), (''c'', scenario_quad)]
    in fdCache w = Some c \<and> lru_items c = [] \<and> 0 < lru_size c \<and> distinct (map fst kvs) \<and>
       int (length kvs) = lru_size c + 1 \<and> int (length (lru_items c)) \<le> lru_size c \<and>
       (\<exists>w'. fdCache_AddAll kvs w = Some w' \<and> evictedCounter w' = 1 \<and>
          lru_items (cache_of w') = [(''c'', scenario_quad), (''b'', scenario_quad)] \<and>
          int (length (lru_items (cache_of w'))) \<le> 2))"
proof -
  define c :: LRU where "c = \<lparr>lru_size = 2, lru_items = []\<rparr>"
  define w where "w = (new_world sample_poller)\<lparr>fdCache := Some c\<rparr>"
  define kvs where
    "kvs = [(''a'', scenario_quad), (''b'', scenario_quad), (''c'', scenario_quad)]"
  have h: "fdCache w = Some c \<and> lru_items c = [] \<and> 0 < lru_size c \<and> distinct (map fst kvs)"
    by (simp add: w_def c_def kvs_def)
  have l: "int (length kvs) = lru_size c + 1" by (simp add: kvs_def c_def)
  have b: "int (length (lru_items c)) \<le> lru_size c" by (simp add: c_def)
  have z: "evictedCounter w = 0" by (simp add: w_def new_world_def)
  note t = cache_never_exceeds_capacity [of 0 "''/proc''" w c kvs]
  from t h l obtain w' where
    r: "fdCache_AddAll kvs w = Some w'" "evictedCounter w' = evictedCounter w + 1"
       "lru_items (cache_of w') = rev (tl kvs)"
       "int (length (lru_items (cache_of w'))) = lru_size c"
    by blast
  have "evictedCounter w' = 1" using r(2) z by simp
  moreover have "lru_items (cache_of w') = [(''c'', scenario_quad), (''b'', scenario_quad)]"
    using r(3) by (simp add: kvs_def)
  moreover have "int (length (lru_items (cache_of w'))) \<le> 2" using r(4) by (simp add: c_def)
  ultimately show ?thesis
    unfolding Let_def c_def [symmetric] w_def [symmetric] kvs_def [symmetric]
    using h l b r(1) by blast
qed

end
